theory Spec2Isabelle
  imports Complex_Main "HOL-Library.AList" "HOL-Library.Multiset"
begin

section \<open>Data model (types.ts)\<close>

text \<open>
  The TypeScript \<open>number\<close> is modelled as \<open>real\<close>: exact arithmetic, no rounding, no
  \<open>NaN\<close>. Where the source divides by a value that can be zero the quotient is a
  \<open>jsnum\<close> (below), so that the division by zero stays visible. An optional field
  \<open>f?: T\<close> is a \<open>T option\<close>; \<open>None\<close> stands for both \<open>undefined\<close> and \<open>null\<close>.
  Field names that two interfaces share (\<open>id\<close>, \<open>color\<close>) or that clash with Isabelle
  keywords carry a prefix.
\<close>

datatype TimelineItemColor = Blue | Red

datatype Section = Top | Bottom

datatype InputMode = AgeMode | DateMode

record Category =
  cat_id :: int
  cat_name :: string
  cat_label :: string
  cat_section :: Section
  display_order :: int
  cat_color :: TimelineItemColor

record TimelineItem =
  item_id :: int
  category_id :: int
  category :: "Category option"
  title :: string
  description :: "string option"
  start_age :: "real option"
  end_age :: "real option"
  use_max_age :: "bool option"
  input_mode :: "InputMode option"
  start_date :: "string option"
  end_date :: "string option"
  item_color :: TimelineItemColor

text \<open>The pair returned by the normalizer (interface \<open>DerivedAges\<close>).\<close>

record DerivedAges =
  d_start_age :: real
  d_end_age :: "real option"

section \<open>Dates (utils/ageCalculator.ts)\<close>

text \<open>
  \<open>new Date(s)\<close> belongs to the platform, not to the repository, and its reading of a
  string depends on the engine and on the local time zone. It is a parameter
  \<open>newDate\<close> of every function that parses: the result is either \<open>InvalidDate\<close>
  (\<open>isNaN(d.getTime())\<close>) or the three local calendar components that the source
  reads with \<open>getFullYear\<close>, \<open>getMonth\<close> (0-based) and \<open>getDate\<close>.
\<close>

datatype jsdate = InvalidDate | Date (getFullYear: int) (getMonth: int) (getDate: int)

type_synonym date_parser = "string \<Rightarrow> jsdate"

text \<open>JavaScript truthiness of an optional string and of an optional boolean.\<close>

definition truthy_str :: "string option \<Rightarrow> bool" where
  "truthy_str s = (case s of None \<Rightarrow> False | Some t \<Rightarrow> t \<noteq> [])"

definition truthy_bool :: "bool option \<Rightarrow> bool" where
  "truthy_bool b = (case b of None \<Rightarrow> False | Some v \<Rightarrow> v)"

definition calculateAgeAtDate :: "date_parser \<Rightarrow> string option \<Rightarrow> string option \<Rightarrow> int option" where
  "calculateAgeAtDate newDate eventDate dateOfBirth =
     (case (eventDate, dateOfBirth) of
        (Some e, Some b) \<Rightarrow>
          if e = [] \<or> b = [] then None
          else (case (newDate e, newDate b) of
                  (Date ey em ed, Date by bm bd) \<Rightarrow>
                    (let age = ey - by; monthDiff = em - bm
                     in if monthDiff < 0 \<or> (monthDiff = 0 \<and> ed < bd)
                        then Some (age - 1) else Some age)
                | _ \<Rightarrow> None)
      | _ \<Rightarrow> None)"

definition calculateMonthsDiff :: "date_parser \<Rightarrow> string option \<Rightarrow> string option \<Rightarrow> int option" where
  "calculateMonthsDiff newDate startDate endDate =
     (case (startDate, endDate) of
        (Some s, Some e) \<Rightarrow>
          if s = [] \<or> e = [] then None
          else (case (newDate s, newDate e) of
                  (Date sy sm sd, Date ey em ed) \<Rightarrow>
                    (let yearDiff = ey - sy; monthDiff = em - sm; dayDiff = ed - sd;
                         totalMonths = yearDiff * 12 + monthDiff
                     in if dayDiff < 0 then Some (totalMonths - 1) else Some totalMonths)
                | _ \<Rightarrow> None)
      | _ \<Rightarrow> None)"

text \<open>
  One concrete platform, for the examples: the reading of a strict \<open>YYYY-MM-DD\<close> string
  where local time is UTC. Anything else is invalid.
\<close>

definition digit :: "char \<Rightarrow> int option" where
  "digit c = (let n = (of_char c :: nat) in if 48 \<le> n \<and> n \<le> 57 then Some (int n - 48) else None)"

fun digits :: "string \<Rightarrow> int \<Rightarrow> int option" where
  "digits [] acc = Some acc"
| "digits (c # cs) acc = (case digit c of None \<Rightarrow> None | Some d \<Rightarrow> digits cs (10 * acc + d))"

definition isoDate :: date_parser where
  "isoDate s =
     (if length s = 10 \<and> s ! 4 = CHR ''-'' \<and> s ! 7 = CHR ''-'' then
        (case (digits (take 4 s) 0, digits (take 2 (drop 5 s)) 0, digits (drop 8 s) 0) of
           (Some y, Some m, Some d) \<Rightarrow>
             if 1 \<le> m \<and> m \<le> 12 \<and> 1 \<le> d \<and> d \<le> 31 then Date y (m - 1) d else InvalidDate
         | _ \<Rightarrow> InvalidDate)
      else InvalidDate)"

section \<open>Age/Date Normalizer (Timeline.tsx, deriveItemAges)\<close>

definition deriveItemAges :: "date_parser \<Rightarrow> TimelineItem \<Rightarrow> string \<Rightarrow> real \<Rightarrow> DerivedAges" where
  "deriveItemAges newDate item dateOfBirth ageRange =
     (if input_mode item = Some DateMode \<and> truthy_str (start_date item) then
        (let startAge = (case calculateAgeAtDate newDate (start_date item) (Some dateOfBirth) of
                           None \<Rightarrow> 0 | Some a \<Rightarrow> real_of_int a)
         in if truthy_bool (use_max_age item) then
              \<lparr>d_start_age = startAge, d_end_age = Some ageRange\<rparr>
            else if \<not> truthy_str (end_date item) then
              \<lparr>d_start_age = startAge, d_end_age = None\<rparr>
            else
              (case calculateMonthsDiff newDate (start_date item) (end_date item) of
                 None \<Rightarrow> \<lparr>d_start_age = startAge, d_end_age = None\<rparr>
               | Some months \<Rightarrow>
                   if months < 3 then \<lparr>d_start_age = startAge, d_end_age = None\<rparr>
                   else if months \<le> 12 then
                     \<lparr>d_start_age = startAge, d_end_age = Some (startAge + 1)\<rparr>
                   else
                     (let endAge = (case calculateAgeAtDate newDate (end_date item) (Some dateOfBirth) of
                                      None \<Rightarrow> startAge + 1 | Some a \<Rightarrow> real_of_int a)
                      in \<lparr>d_start_age = startAge, d_end_age = Some endAge\<rparr>)))
      else
        \<lparr>d_start_age = (case start_age item of None \<Rightarrow> 0 | Some a \<Rightarrow> a),
         d_end_age = (if truthy_bool (use_max_age item) then Some ageRange else end_age item)\<rparr>)"

section \<open>Numbers that may not be finite\<close>

text \<open>
  The values that JavaScript arithmetic yields beyond the reals: a division by zero gives
  \<open>Infinity\<close>, \<open>-Infinity\<close> or \<open>NaN\<close>, and the sort comparator subtracts \<open>Infinity\<close>
  from \<open>Infinity\<close>. Comparisons with \<open>NaN\<close> are false.
\<close>

datatype jsnum = Fin real | PosInf | NegInf | NaN

definition js_div :: "real \<Rightarrow> real \<Rightarrow> jsnum" where
  "js_div a b = (if b \<noteq> 0 then Fin (a / b)
                 else if 0 < a then PosInf else if a < 0 then NegInf else NaN)"

fun js_neg :: "jsnum \<Rightarrow> jsnum" where
  "js_neg (Fin a) = Fin (- a)"
| "js_neg PosInf = NegInf"
| "js_neg NegInf = PosInf"
| "js_neg NaN = NaN"

fun js_add :: "jsnum \<Rightarrow> jsnum \<Rightarrow> jsnum" where
  "js_add NaN b = NaN"
| "js_add a NaN = NaN"
| "js_add (Fin a) (Fin b) = Fin (a + b)"
| "js_add PosInf NegInf = NaN"
| "js_add NegInf PosInf = NaN"
| "js_add PosInf b = PosInf"
| "js_add NegInf b = NegInf"
| "js_add a PosInf = PosInf"
| "js_add a NegInf = NegInf"

definition js_sub :: "jsnum \<Rightarrow> jsnum \<Rightarrow> jsnum" where
  "js_sub a b = js_add a (js_neg b)"

fun js_half :: "jsnum \<Rightarrow> jsnum" where
  "js_half (Fin a) = Fin (a / 2)"
| "js_half a = a"

fun js_gt :: "jsnum \<Rightarrow> jsnum \<Rightarrow> bool" where
  "js_gt NaN b = False"
| "js_gt a NaN = False"
| "js_gt (Fin a) (Fin b) = (a > b)"
| "js_gt PosInf PosInf = False"
| "js_gt PosInf b = True"
| "js_gt a PosInf = False"
| "js_gt NegInf b = False"
| "js_gt a NegInf = True"

fun js_max :: "jsnum \<Rightarrow> jsnum \<Rightarrow> jsnum" where
  "js_max NaN b = NaN"
| "js_max a NaN = NaN"
| "js_max (Fin a) (Fin b) = Fin (max a b)"
| "js_max PosInf b = PosInf"
| "js_max a PosInf = PosInf"
| "js_max NegInf b = b"
| "js_max a NegInf = a"

text \<open>\<open>m.get(k) || d\<close>: the default replaces a missing entry and the falsy numbers 0 and \<open>NaN\<close>.\<close>

definition js_or :: "jsnum option \<Rightarrow> real \<Rightarrow> jsnum" where
  "js_or v d = (case v of None \<Rightarrow> Fin d
                | Some NaN \<Rightarrow> Fin d
                | Some (Fin x) \<Rightarrow> if x = 0 then Fin d else Fin x
                | Some w \<Rightarrow> w)"

text \<open>
  \<open>Array.prototype.sort\<close> is stable; with a consistent comparator its result is the one
  stable ordering, built here by insertion. A comparator result that is not greater than
  zero (negative, zero or \<open>NaN\<close>) leaves the earlier element first.
\<close>

fun insertSorted :: "('a \<Rightarrow> 'a \<Rightarrow> jsnum) \<Rightarrow> 'a \<Rightarrow> 'a list \<Rightarrow> 'a list" where
  "insertSorted cmp x [] = [x]"
| "insertSorted cmp x (y # ys) =
     (if js_gt (cmp x y) (Fin 0) then y # insertSorted cmp x ys else x # y # ys)"

definition js_sort :: "('a \<Rightarrow> 'a \<Rightarrow> jsnum) \<Rightarrow> 'a list \<Rightarrow> 'a list" where
  "js_sort cmp xs = foldr (insertSorted cmp) xs []"

text \<open>
  A JavaScript \<open>Map\<close> is an association list in insertion order: \<open>set\<close> is
  \<open>AList.update\<close> (replace in place, or append), \<open>get\<close> is \<open>map_of\<close>, \<open>values()\<close> is
  \<open>map snd\<close>.
\<close>

section \<open>The Timeline component (Timeline.tsx)\<close>

datatype ViewMode = ViewAll | ViewPast | ViewFuture

text \<open>
  What one render of \<open>Timeline\<close> closes over: its props (after defaulting) and the
  platform's date parser.
\<close>

record TimelineProps =
  items :: "TimelineItem list"
  categories :: "Category list"
  currentAge :: real
  ageRange :: real
  dateOfBirth :: string
  autoScale :: bool
  viewMode :: ViewMode
  width :: real
  zoom :: real
  newDate :: date_parser

record DisplayRange =
  startAge :: real
  displayRange :: real

definition itemAges :: "TimelineProps \<Rightarrow> (int \<times> DerivedAges) list" where
  "itemAges P =
     fold (\<lambda>item m. AList.update (item_id item)
                       (deriveItemAges (newDate P) item (dateOfBirth P) (ageRange P)) m)
          (items P) []"

definition getItemAges :: "TimelineProps \<Rightarrow> TimelineItem \<Rightarrow> DerivedAges" where
  "getItemAges P item =
     (case map_of (itemAges P) (item_id item) of
        Some ages \<Rightarrow> ages
      | None \<Rightarrow> \<lparr>d_start_age = (case start_age item of None \<Rightarrow> 0 | Some a \<Rightarrow> a),
                  d_end_age = end_age item\<rparr>)"

definition categoryMap :: "TimelineProps \<Rightarrow> (int \<times> Category) list" where
  "categoryMap P = fold (\<lambda>cat m. AList.update (cat_id cat) cat m) (categories P) []"

definition getCategory :: "TimelineProps \<Rightarrow> TimelineItem \<Rightarrow> Category option" where
  "getCategory P item =
     (case category item of Some c \<Rightarrow> Some c
      | None \<Rightarrow> map_of (categoryMap P) (category_id item))"

subsection \<open>Display-Range Selector\<close>

text \<open>
  The running minimum and maximum start at \<open>Infinity\<close> and \<open>-Infinity\<close>, here \<open>None\<close>.
\<close>

definition scanAges :: "TimelineProps \<Rightarrow> real option \<times> real option" where
  "scanAges P =
     fold (\<lambda>item (minAge, maxAge).
             (let ages = deriveItemAges (newDate P) item (dateOfBirth P) (ageRange P);
                  itemEndAge = (case d_end_age ages of None \<Rightarrow> d_start_age ages | Some e \<Rightarrow> e)
              in ((case minAge of None \<Rightarrow> Some (d_start_age ages)
                   | Some m \<Rightarrow> Some (min m (d_start_age ages))),
                  (case maxAge of None \<Rightarrow> Some itemEndAge
                   | Some m \<Rightarrow> Some (max m itemEndAge)))))
          (items P) (None, None)"

text \<open>
  The straight-line part of \<open>calculateDisplayRange\<close> that follows the scan (padding,
  view-mode clamps, 20-year floor, cap at \<open>ageRange\<close>), as a function of the view mode,
  \<open>currentAge\<close>, \<open>ageRange\<close> and the two bounds. Each reassignment of a \<open>let\<close> variable of
  the source is a fresh name.
\<close>

definition fitDisplayRange :: "ViewMode \<Rightarrow> real \<Rightarrow> real \<Rightarrow> real \<Rightarrow> real \<Rightarrow> DisplayRange" where
  "fitDisplayRange vm cur rng minAge maxAge =
     (let itemSpan = maxAge - minAge;
          padding = (if itemSpan > 0 then max (itemSpan * (1 / 10)) 5 else 5);
          calculatedStart0 = max 0 (real_of_int \<lfloor>minAge - padding\<rfloor>);
          calculatedEnd = real_of_int \<lceil>maxAge + padding\<rceil>;
          calculatedStart1 = (if vm = ViewFuture \<and> calculatedStart0 < cur then cur
                              else calculatedStart0);
          calculatedStart =
            (if vm = ViewPast \<and> calculatedEnd > cur then
               (let pastRange = cur - calculatedStart1
                in if pastRange < 20 then max 0 (cur - 20) else calculatedStart1)
             else calculatedStart1);
          calculatedRange = calculatedEnd - calculatedStart;
          finalRange0 = max calculatedRange 20;
          finalStart0 = max 0 calculatedStart;
          finalStart = (if vm = ViewFuture then max finalStart0 cur else finalStart0);
          finalEnd = finalStart + finalRange0;
          finalRange = (if vm = ViewPast \<and> finalEnd > cur then cur - finalStart
                        else finalRange0);
          maxEndAge = finalStart + finalRange
      in if maxEndAge > rng then
           (let maxAllowedRange = rng - finalStart;
                cappedRange = min finalRange maxAllowedRange
            in if vm = ViewFuture then
                 \<lparr>startAge = max cur (rng - cappedRange), displayRange = cappedRange\<rparr>
               else if vm = ViewPast then
                 \<lparr>startAge = max 0 (cur - cappedRange), displayRange = cappedRange\<rparr>
               else
                 \<lparr>startAge = max 0 (rng - cappedRange), displayRange = cappedRange\<rparr>)
         else \<lparr>startAge = finalStart, displayRange = finalRange\<rparr>)"

definition calculateDisplayRange :: "TimelineProps \<Rightarrow> DisplayRange" where
  "calculateDisplayRange P =
     (if \<not> autoScale P then \<lparr>startAge = 0, displayRange = ageRange P\<rparr>
      else if items P = [] then
        (case viewMode P of
           ViewFuture \<Rightarrow>
             (let futureRange = min (ageRange P - currentAge P) 40
              in \<lparr>startAge = currentAge P, displayRange = max futureRange 20\<rparr>)
         | ViewPast \<Rightarrow> \<lparr>startAge = 0, displayRange = max (currentAge P) 20\<rparr>
         | ViewAll \<Rightarrow> \<lparr>startAge = 0, displayRange = min (ageRange P) 40\<rparr>)
      else
        (case scanAges P of
           (Some minAge, Some maxAge) \<Rightarrow>
             fitDisplayRange (viewMode P) (currentAge P) (ageRange P) minAge maxAge
         | _ \<Rightarrow>
             if viewMode P = ViewFuture then
               (let futureRange = min (ageRange P - currentAge P) 40
                in \<lparr>startAge = currentAge P, displayRange = max futureRange 20\<rparr>)
             else \<lparr>startAge = 0, displayRange = min (ageRange P) 40\<rparr>))"

definition AGE_RANGE :: "TimelineProps \<Rightarrow> real" where
  "AGE_RANGE P = displayRange (calculateDisplayRange P)"

definition START_AGE :: "TimelineProps \<Rightarrow> real" where
  "START_AGE P = startAge (calculateDisplayRange P)"

subsection \<open>Geometry\<close>

definition ageToX :: "TimelineProps \<Rightarrow> real \<Rightarrow> real" where
  "ageToX P age =
     (if AGE_RANGE P = 0 then 0
      else (let normalizedAge = age - START_AGE P
            in (normalizedAge / AGE_RANGE P) * width P))"

definition calculatePointItemWidth :: "TimelineProps \<Rightarrow> string \<Rightarrow> real" where
  "calculatePointItemWidth P text =
     (let zoomLevel = zoom P;
          baseSize = 11 * zoomLevel;
          padding = 4 * zoomLevel;
          charWidth = baseSize * (6 / 10);
          widthAtBase = real (length text) * charWidth + padding
      in max (50 * zoomLevel) widthAtBase)"

text \<open>
  The width that the pre-calculation loop stores for one item. The bar branch divides
  \<open>TIMELINE_WIDTH\<close> by \<open>AGE_RANGE\<close> with no guard.
\<close>

definition oneYearWidth :: "TimelineProps \<Rightarrow> jsnum" where
  "oneYearWidth P = js_div (width P) (AGE_RANGE P)"

definition itemWidth :: "TimelineProps \<Rightarrow> TimelineItem \<Rightarrow> jsnum" where
  "itemWidth P item =
     (let ages = getItemAges P item;
          startX = ageToX P (d_start_age ages)
      in case d_end_age ages of
           Some effectiveEndAge \<Rightarrow>
             (let endX = ageToX P effectiveEndAge
              in js_max (Fin (endX - startX)) (oneYearWidth P))
         | None \<Rightarrow> Fin (calculatePointItemWidth P (title item)))"

definition itemWidths :: "TimelineProps \<Rightarrow> (int \<times> jsnum) list" where
  "itemWidths P = fold (\<lambda>item m. AList.update (item_id item) (itemWidth P item) m) (items P) []"

subsection \<open>Stacking Allocator\<close>

definition itemsOverlap :: "TimelineProps \<Rightarrow> TimelineItem \<Rightarrow> TimelineItem \<Rightarrow> bool" where
  "itemsOverlap P item1 item2 =
     (let ages1 = getItemAges P item1;
          ages2 = getItemAges P item2;
          item1EndAge = d_end_age ages1;
          item2EndAge = d_end_age ages2;
          item1IsPoint = (item1EndAge = None);
          item2IsPoint = (item2EndAge = None)
      in if item1IsPoint \<and> item2IsPoint then
           (let item1X = ageToX P (d_start_age ages1);
                item2X = ageToX P (d_start_age ages2);
                item1Width = js_or (map_of (itemWidths P) (item_id item1)) 60;
                item2Width = js_or (map_of (itemWidths P) (item_id item2)) 60;
                item1Left = js_sub (Fin item1X) (js_half item1Width);
                item1Right = js_add (Fin item1X) (js_half item1Width);
                item2Left = js_sub (Fin item2X) (js_half item2Width);
                item2Right = js_add (Fin item2X) (js_half item2Width)
            in js_gt item1Right item2Left \<and> js_gt item2Right item1Left)
         else
           (let item1End = (case item1EndAge of None \<Rightarrow> d_start_age ages1 | Some e \<Rightarrow> e);
                item2End = (case item2EndAge of None \<Rightarrow> d_start_age ages2 | Some e \<Rightarrow> e)
            in item1End > d_start_age ages2 \<and> item2End > d_start_age ages1))"

definition compareItems :: "TimelineProps \<Rightarrow> TimelineItem \<Rightarrow> TimelineItem \<Rightarrow> jsnum" where
  "compareItems P a b =
     (let agesA = getItemAges P a;
          agesB = getItemAges P b
      in if d_start_age agesA \<noteq> d_start_age agesB then
           Fin (d_start_age agesA - d_start_age agesB)
         else
           (let aEnd = (case d_end_age agesA of None \<Rightarrow> PosInf | Some e \<Rightarrow> Fin e);
                bEnd = (case d_end_age agesB of None \<Rightarrow> PosInf | Some e \<Rightarrow> Fin e)
            in js_sub aEnd bEnd))"

text \<open>
  The inner \<open>for\<close> loop over \<open>stacks\<close>: the first stack none of whose members overlaps the
  item takes it; when the loop ends unplaced a new stack is pushed. The result is the new
  \<open>stacks\<close> and the index stored in \<open>stackMap\<close>.
\<close>

fun placeItem :: "('a \<Rightarrow> 'a \<Rightarrow> bool) \<Rightarrow> 'a \<Rightarrow> 'a list list \<Rightarrow> 'a list list \<times> nat" where
  "placeItem overlap item [] = ([[item]], 0)"
| "placeItem overlap item (stack # rest) =
     (if list_all (\<lambda>stackItem. \<not> overlap item stackItem) stack
      then ((stack @ [item]) # rest, 0)
      else (case placeItem overlap item rest of (rest', i) \<Rightarrow> (stack # rest', Suc i)))"

text \<open>The outer loop, over the sorted items, threading \<open>stacks\<close> and \<open>stackMap\<close>.\<close>

fun stackLoop :: "('a \<Rightarrow> 'a \<Rightarrow> bool) \<Rightarrow> ('a \<Rightarrow> int) \<Rightarrow> 'a list
                  \<Rightarrow> 'a list list \<times> (int \<times> nat) list \<Rightarrow> 'a list list \<times> (int \<times> nat) list" where
  "stackLoop overlap ident [] st = st"
| "stackLoop overlap ident (item # rest) (stacks, stackMap) =
     (case placeItem overlap item stacks of
        (stacks', i) \<Rightarrow>
          stackLoop overlap ident rest (stacks', AList.update (ident item) i stackMap))"

definition sortedItems :: "TimelineProps \<Rightarrow> TimelineItem list \<Rightarrow> TimelineItem list" where
  "sortedItems P categoryItems = js_sort (compareItems P) categoryItems"

definition assignStackPositions :: "TimelineProps \<Rightarrow> TimelineItem list \<Rightarrow> (int \<times> nat) list" where
  "assignStackPositions P categoryItems =
     snd (stackLoop (itemsOverlap P) item_id (sortedItems P categoryItems) ([], []))"

text \<open>
  The per-category step of the \<open>categories.forEach\<close> that fills \<open>categoryMaxStacks\<close>:
  \<open>Math.max(...positions.values(), 0) + 1\<close>.
\<close>

definition categoryItemsOf :: "TimelineProps \<Rightarrow> Category \<Rightarrow> TimelineItem list" where
  "categoryItemsOf P cat =
     filter (\<lambda>item. case getCategory P item of None \<Rightarrow> False
                     | Some itemCategory \<Rightarrow> cat_id itemCategory = cat_id cat)
            (items P)"

definition maxStackOf :: "(int \<times> nat) list \<Rightarrow> nat" where
  "maxStackOf positions = fold max (map snd positions) 0 + 1"

definition categoryMaxStacks :: "TimelineProps \<Rightarrow> (int \<times> nat) list" where
  "categoryMaxStacks P =
     fold (\<lambda>cat m. AList.update (cat_id cat)
                      (maxStackOf (assignStackPositions P (categoryItemsOf P cat))) m)
          (categories P) []"

section \<open>The category manager (CategoryManager.tsx)\<close>

text \<open>
  The component's state: the category list, the next identifier (held by the parent and
  set through \<open>setNextCategoryId\<close>), the category being edited, whether the form is
  shown, and the form fields. \<open>display_order\<close> is an integer: the form's input handler
  stores the result of \<open>parseInt\<close>.
\<close>

record FormData =
  fd_name :: string
  fd_label :: string
  fd_section :: Section
  fd_display_order :: int
  fd_color :: TimelineItemColor

record CategoryManager =
  cm_categories :: "Category list"
  nextCategoryId :: int
  editingCategory :: "Category option"
  showForm :: bool
  formData :: FormData

definition sectionCount :: "Category list \<Rightarrow> Section \<Rightarrow> nat" where
  "sectionCount cats sec = length (filter (\<lambda>c. cat_section c = sec) cats)"

definition handleCreate :: "CategoryManager \<Rightarrow> CategoryManager" where
  "handleCreate st =
     st\<lparr>editingCategory := None,
        formData := \<lparr>fd_name = [], fd_label = [], fd_section = Top,
                      fd_display_order = int (sectionCount (cm_categories st) Top),
                      fd_color = Blue\<rparr>,
        showForm := True\<rparr>"

definition handleEdit :: "Category \<Rightarrow> CategoryManager \<Rightarrow> CategoryManager" where
  "handleEdit cat st =
     st\<lparr>editingCategory := Some cat,
        formData := \<lparr>fd_name = cat_name cat, fd_label = cat_label cat,
                      fd_section = cat_section cat, fd_display_order = display_order cat,
                      fd_color = cat_color cat\<rparr>,
        showForm := True\<rparr>"

text \<open>The \<open>onChange\<close> handlers of the section selector and of the display-order input.\<close>

definition changeSection :: "Section \<Rightarrow> CategoryManager \<Rightarrow> CategoryManager" where
  "changeSection newSection st =
     (let newDisplayOrder = int (sectionCount (cm_categories st) newSection)
      in st\<lparr>formData := (formData st)\<lparr>fd_section := newSection,
                                        fd_display_order := newDisplayOrder\<rparr>\<rparr>)"

definition changeDisplayOrder :: "int \<Rightarrow> CategoryManager \<Rightarrow> CategoryManager" where
  "changeDisplayOrder v st =
     (let maxDisplayOrder = int (sectionCount (cm_categories st) (fd_section (formData st)));
          clampedValue = max 0 (min maxDisplayOrder v)
      in st\<lparr>formData := (formData st)\<lparr>fd_display_order := clampedValue\<rparr>\<rparr>)"

text \<open>The state setter \<open>setFormData\<close>, for the text inputs of the form.\<close>

definition setFormData :: "FormData \<Rightarrow> CategoryManager \<Rightarrow> CategoryManager" where
  "setFormData fd st = st\<lparr>formData := fd\<rparr>"

text \<open>
  \<open>validateForm\<close>: \<open>trim()\<close> leaves nothing exactly when every character is white space;
  the name must match \<open>/^[a-z0-9_]+$/\<close> and be used by no other category; the display
  order must lie between 0 and the number of categories of the section.
\<close>

definition js_whitespace :: "char \<Rightarrow> bool" where
  "js_whitespace c = (c \<in> set [CHR '' '', CHR 0x09, CHR 0x0A, CHR 0x0B, CHR 0x0C, CHR 0x0D])"

definition name_char :: "char \<Rightarrow> bool" where
  "name_char c = (let n = (of_char c :: nat)
                  in (97 \<le> n \<and> n \<le> 122) \<or> (48 \<le> n \<and> n \<le> 57) \<or> n = 95)"

definition validateForm :: "CategoryManager \<Rightarrow> bool" where
  "validateForm st =
     (let fd = formData st;
          labelError = list_all js_whitespace (fd_label fd);
          nameError =
            (if list_all js_whitespace (fd_name fd) then True
             else if \<not> (fd_name fd \<noteq> [] \<and> list_all name_char (fd_name fd)) then True
             else list_ex (\<lambda>cat. cat_name cat = fd_name fd \<and>
                                  (case editingCategory st of None \<Rightarrow> True
                                   | Some ec \<Rightarrow> cat_id cat \<noteq> cat_id ec))
                          (cm_categories st));
          maxDisplayOrder = int (sectionCount (cm_categories st) (fd_section fd));
          orderError = (fd_display_order fd < 0 \<or> fd_display_order fd > maxDisplayOrder)
      in \<not> labelError \<and> \<not> nameError \<and> \<not> orderError)"

text \<open>\<open>Array.prototype.findIndex\<close>: the first index that satisfies the test, if any.\<close>

fun findIndex :: "('a \<Rightarrow> bool) \<Rightarrow> 'a list \<Rightarrow> nat option" where
  "findIndex p [] = None"
| "findIndex p (x # xs) =
     (if p x then Some 0 else (case findIndex p xs of None \<Rightarrow> None | Some i \<Rightarrow> Some (Suc i)))"

text \<open>The comparator of both sorts: by display order, then by identifier.\<close>

definition compareCategories :: "Category \<Rightarrow> Category \<Rightarrow> jsnum" where
  "compareCategories a b =
     (if display_order a \<noteq> display_order b
      then Fin (real_of_int (display_order a - display_order b))
      else Fin (real_of_int (cat_id a - cat_id b)))"

text \<open>
  The \<open>forEach\<close> that reassigns sequential display orders: the category at position
  \<open>index\<close> of the ordered section list gets \<open>index\<close>, written into \<open>updatedCategories\<close>
  at the first position holding its identifier.
\<close>

fun reassignOrders :: "Category list \<Rightarrow> nat \<Rightarrow> Category list \<Rightarrow> Category list" where
  "reassignOrders [] index updatedCategories = updatedCategories"
| "reassignOrders (cat # rest) index updatedCategories =
     reassignOrders rest (Suc index)
       (case findIndex (\<lambda>c. cat_id c = cat_id cat) updatedCategories of
          None \<Rightarrow> updatedCategories
        | Some categoryIndex \<Rightarrow>
            updatedCategories[categoryIndex :=
              (updatedCategories ! categoryIndex)\<lparr>display_order := int index\<rparr>])"

text \<open>\<open>{ ...cat, ...formData }\<close>: the five form fields replace those of the category.\<close>

definition applyForm :: "FormData \<Rightarrow> Category \<Rightarrow> Category" where
  "applyForm fd cat =
     cat\<lparr>cat_name := fd_name fd, cat_label := fd_label fd, cat_section := fd_section fd,
         display_order := fd_display_order fd, cat_color := fd_color fd\<rparr>"

definition handleSave :: "CategoryManager \<Rightarrow> CategoryManager" where
  "handleSave st =
     (if \<not> validateForm st then st
      else
        (let fd = formData st;
             cats = cm_categories st;
             newCategory = (case editingCategory st of
                              Some ec \<Rightarrow> None
                            | None \<Rightarrow> Some \<lparr>cat_id = nextCategoryId st, cat_name = fd_name fd,
                                             cat_label = fd_label fd, cat_section = fd_section fd,
                                             display_order = fd_display_order fd,
                                             cat_color = fd_color fd\<rparr>);
             updatedCategories0 =
               (case editingCategory st of
                  Some ec \<Rightarrow> map (\<lambda>cat. if cat_id cat = cat_id ec then applyForm fd cat else cat) cats
                | None \<Rightarrow> (case newCategory of Some nc \<Rightarrow> cats @ [nc] | None \<Rightarrow> cats));
             nextId = (case editingCategory st of
                         Some ec \<Rightarrow> nextCategoryId st | None \<Rightarrow> nextCategoryId st + 1);
             sectionCategories = filter (\<lambda>c. cat_section c = fd_section fd) updatedCategories0;
             maxDisplayOrder = int (sectionCount cats (fd_section fd));
             hasDuplicates = (length sectionCategories
                                \<noteq> length (remdups (map display_order sectionCategories)));
             isInsertingInMiddle = (fd_display_order fd < maxDisplayOrder);
             updatedCategories =
               (if isInsertingInMiddle \<or> hasDuplicates then
                  (let targetCategory =
                         (case editingCategory st of
                            Some ec \<Rightarrow> find (\<lambda>c. cat_id c = cat_id ec) updatedCategories0
                          | None \<Rightarrow> newCategory)
                   in case targetCategory of
                        None \<Rightarrow> updatedCategories0
                      | Some target \<Rightarrow>
                          (let otherCategories =
                                 js_sort compareCategories
                                   (filter (\<lambda>c. cat_id c \<noteq> cat_id target) sectionCategories);
                               insertPosition = nat (fd_display_order fd);
                               spliced = take insertPosition otherCategories @ [target]
                                           @ drop insertPosition otherCategories
                           in reassignOrders spliced 0 updatedCategories0))
                else updatedCategories0)
         in st\<lparr>cm_categories := updatedCategories, nextCategoryId := nextId,
               showForm := False, editingCategory := None\<rparr>))"

text \<open>\<open>handleDelete\<close>; the argument \<open>confirmed\<close> is the answer to the \<open>confirm\<close> dialog.\<close>

definition handleDelete :: "bool \<Rightarrow> int \<Rightarrow> CategoryManager \<Rightarrow> CategoryManager" where
  "handleDelete confirmed ident st =
     (if \<not> confirmed then st
      else case find (\<lambda>cat. cat_id cat = ident) (cm_categories st) of
             None \<Rightarrow> st
           | Some categoryToDelete \<Rightarrow>
               (let updatedCategories0 = filter (\<lambda>cat. cat_id cat \<noteq> ident) (cm_categories st);
                    sectionCategories =
                      js_sort compareCategories
                        (filter (\<lambda>c. cat_section c = cat_section categoryToDelete) updatedCategories0)
                in st\<lparr>cm_categories := reassignOrders sectionCategories 0 updatedCategories0\<rparr>))"

text \<open>
  The density invariant of the data model, as a check that runs: the display orders of
  a section, sorted, are \<open>0, 1, \<dots>, count - 1\<close>.
\<close>

definition sectionOrders :: "Category list \<Rightarrow> Section \<Rightarrow> int list" where
  "sectionOrders cats sec = map display_order (filter (\<lambda>c. cat_section c = sec) cats)"

definition dense :: "Category list \<Rightarrow> Section \<Rightarrow> bool" where
  "dense cats sec = (sort (sectionOrders cats sec) = map int [0 ..< sectionCount cats sec])"

section \<open>Invariant of the allocation loop\<close>

text \<open>
  What holds of \<open>stacks\<close> and \<open>stackMap\<close> after the items of the set \<open>placed\<close> have been
  processed: no stack is empty, every member of stack \<open>k\<close> is mapped to \<open>k\<close>, the members
  of one stack do not overlap pairwise, the keys of the map are the identifiers of the
  placed items, and the stacks hold exactly the placed items.
\<close>

definition stack_inv :: "('a \<Rightarrow> 'a \<Rightarrow> bool) \<Rightarrow> ('a \<Rightarrow> int) \<Rightarrow> 'a set
                          \<Rightarrow> 'a list list \<times> (int \<times> nat) list \<Rightarrow> bool" where
  "stack_inv overlap ident placed st =
     (case st of (stacks, stackMap) \<Rightarrow>
        (\<forall>lane \<in> set stacks. lane \<noteq> []) \<and>
        (\<forall>k < length stacks. \<forall>y \<in> set (stacks ! k). map_of stackMap (ident y) = Some k) \<and>
        (\<forall>k < length stacks. \<forall>y \<in> set (stacks ! k). \<forall>z \<in> set (stacks ! k).
            y \<noteq> z \<longrightarrow> \<not> overlap y z) \<and>
        fst ` set stackMap = ident ` placed \<and>
        \<Union> (set ` set stacks) = placed \<and>
        distinct (map fst stackMap))"

section \<open>Sample data\<close>

definition sampleItem :: TimelineItem where
  "sampleItem =
     \<lparr>item_id = 1, category_id = 1, category = None, title = ''Job'', description = None,
      start_age = None, end_age = None, use_max_age = None, input_mode = None,
      start_date = None, end_date = None, item_color = Blue\<rparr>"

definition dateItem :: "string \<Rightarrow> string \<Rightarrow> TimelineItem" where
  "dateItem s e = sampleItem\<lparr>input_mode := Some DateMode, start_date := Some s, end_date := Some e\<rparr>"

definition samplePast :: TimelineProps where
  "samplePast =
     \<lparr>items = [sampleItem\<lparr>start_age := Some 22\<rparr>], categories = [], currentAge = 30,
      ageRange = 80, dateOfBirth = ''1990-01-01'', autoScale = True, viewMode = ViewPast,
      width = 1200, zoom = 1, newDate = isoDate\<rparr>"

definition sampleFutureEmpty :: TimelineProps where
  "sampleFutureEmpty =
     \<lparr>items = [], categories = [], currentAge = 70,
      ageRange = 80, dateOfBirth = ''1950-01-01'', autoScale = True, viewMode = ViewFuture,
      width = 1200, zoom = 1, newDate = isoDate\<rparr>"

text \<open>
  The example of the specification: a span from 20 to 25 and a milestone at 22 in one
  category, and a second span that starts where the first ends.
\<close>

definition itemA :: TimelineItem where
  "itemA = sampleItem\<lparr>item_id := 1, title := ''Degree'', start_age := Some 20, end_age := Some 25\<rparr>"

definition itemB :: TimelineItem where
  "itemB = sampleItem\<lparr>item_id := 2, title := ''Prize'', start_age := Some 22\<rparr>"

definition itemC :: TimelineItem where
  "itemC = sampleItem\<lparr>item_id := 3, title := ''First job'', start_age := Some 25, end_age := Some 30\<rparr>"

definition itemD :: TimelineItem where
  "itemD = sampleItem\<lparr>item_id := 4, title := ''Medal'', start_age := Some 23\<rparr>"

definition sampleTimeline :: TimelineProps where
  "sampleTimeline =
     \<lparr>items = [itemA, itemB, itemC, itemD], categories = [], currentAge = 26,
      ageRange = 80, dateOfBirth = ''2000-01-01'', autoScale = False, viewMode = ViewAll,
      width = 1200, zoom = 1, newDate = isoDate\<rparr>"

text \<open>The same timeline with an age range of 0.\<close>

definition sampleZero :: TimelineProps where
  "sampleZero = sampleTimeline\<lparr>ageRange := 0\<rparr>"

text \<open>Two categories of the top section, and a category manager that shows them.\<close>

definition catA :: Category where
  "catA = \<lparr>cat_id = 1, cat_name = ''projects'', cat_label = ''Projects'', cat_section = Top,
            display_order = 0, cat_color = Blue\<rparr>"

definition catB :: Category where
  "catB = \<lparr>cat_id = 2, cat_name = ''homes'', cat_label = ''Homes'', cat_section = Top,
            display_order = 1, cat_color = Red\<rparr>"

definition sampleManager :: CategoryManager where
  "sampleManager =
     \<lparr>cm_categories = [catA, catB], nextCategoryId = 3, editingCategory = None, showForm = False,
      formData = \<lparr>fd_name = [], fd_label = [], fd_section = Top, fd_display_order = 0,
                   fd_color = Blue\<rparr>\<rparr>"

text \<open>The past view of \<open>samplePast\<close> with its one milestone at another age.\<close>

definition samplePastAt :: "real \<Rightarrow> TimelineProps" where
  "samplePastAt age = samplePast\<lparr>items := [sampleItem\<lparr>start_age := Some age\<rparr>]\<rparr>"

text \<open>
  Two more milestones, one with a title long enough to set its width, and the timeline
  that shows all six items.
\<close>

definition itemE :: TimelineItem where
  "itemE = sampleItem\<lparr>item_id := 5, title := ''Moved to Lisbon'', start_age := Some 27\<rparr>"

definition itemF :: TimelineItem where
  "itemF = sampleItem\<lparr>item_id := 6, title := ''Award'', start_age := Some 40\<rparr>"

definition sampleWide :: TimelineProps where
  "sampleWide = sampleTimeline\<lparr>items := [itemA, itemB, itemC, itemD, itemE, itemF]\<rparr>"

text \<open>The first timeline with its two categories; all four items belong to the first.\<close>

definition sampleCategorised :: TimelineProps where
  "sampleCategorised = sampleTimeline\<lparr>categories := [catA, catB]\<rparr>"

section \<open>Properties of the normalizer\<close>

lemma isoDate_examples:
  "isoDate ''2000-01-01'' = Date 2000 0 1"
  "isoDate ''2000-02-01'' = Date 2000 1 1"
  "isoDate ''2000-02-20'' = Date 2000 1 20"
  "isoDate ''2010-01-15'' = Date 2010 0 15"
  "isoDate ''2010-01-31'' = Date 2010 0 31"
  "isoDate ''2010-03-15'' = Date 2010 2 15"
  "isoDate ''2010-04-15'' = Date 2010 3 15"
  "isoDate ''2010-04-30'' = Date 2010 3 30"
  "isoDate ''2011-01-15'' = Date 2011 0 15"
  "isoDate ''2011-02-15'' = Date 2011 1 15"
  "isoDate ''2013-02-15'' = Date 2013 1 15"
  "isoDate ''2010-06-15'' = Date 2010 5 15"
  "isoDate ''2010-08-01'' = Date 2010 7 1"
  by (simp_all add: isoDate_def digit_def)

text \<open>
  C2. A date-mode item with a start date, an end date and \<open>use_max_age\<close> unset is
  normalized by the whole-month span of its two dates. The span is computed from the
  calendar components that the platform reads from the two strings in local time: the
  difference in years times 12 plus the difference in months, less one when the day of
  the end date is before the day of the start date. Under 3 months the item is a
  milestone (no end age); from 3 to 12 months its end age is its start age plus one;
  over 12 months its end age is the age at the end date, which is the difference in
  years from the date of birth, less one when the birthday has not been reached. So two
  dates with the same day of the month that are 2 months apart give a milestone, 3 or 12
  months apart a span of one year, 13 months apart the age at the end date.
\<close>

theorem deriveItemAges_month_thresholds:
  assumes "input_mode item = Some DateMode"
    and "start_date item = Some s" and "s \<noteq> []"
    and "end_date item = Some e" and "e \<noteq> []"
    and "\<not> truthy_bool (use_max_age item)"
    and "nd s = Date sy sm sd" and "nd e = Date ey em ed"
    and "months = (ey - sy) * 12 + (em - sm) - (if ed < sd then 1 else 0)"
  shows "(months < 3 \<longrightarrow> d_end_age (deriveItemAges nd item dob rng) = None) \<and>
         (3 \<le> months \<and> months \<le> 12 \<longrightarrow>
            d_end_age (deriveItemAges nd item dob rng)
              = Some (d_start_age (deriveItemAges nd item dob rng) + 1)) \<and>
         (dob \<noteq> [] \<and> nd dob = Date yb mb db \<longrightarrow>
            d_start_age (deriveItemAges nd item dob rng)
              = real_of_int (sy - yb - (if sm < mb \<or> (sm = mb \<and> sd < db) then 1 else 0)) \<and>
            (12 < months \<longrightarrow>
               d_end_age (deriveItemAges nd item dob rng)
                 = Some (real_of_int (ey - yb - (if em < mb \<or> (em = mb \<and> ed < db) then 1 else 0)))))"
proof -
  have md: "calculateMonthsDiff nd (Some s) (Some e) = Some months"
    using assms(3,5,7,8,9) by (simp add: calculateMonthsDiff_def Let_def)
  have sa: "calculateAgeAtDate nd (Some s) (Some dob)
              = Some (sy - yb - (if sm < mb \<or> (sm = mb \<and> sd < db) then 1 else 0))"
    if "dob \<noteq> []" "nd dob = Date yb mb db"
    using that assms(3,7) by (simp add: calculateAgeAtDate_def Let_def)
  have ea: "calculateAgeAtDate nd (Some e) (Some dob)
              = Some (ey - yb - (if em < mb \<or> (em = mb \<and> ed < db) then 1 else 0))"
    if "dob \<noteq> []" "nd dob = Date yb mb db"
    using that assms(5,8) by (simp add: calculateAgeAtDate_def Let_def)
  have ts: "truthy_str (start_date item)" "truthy_str (end_date item)"
    using assms(2-5) by (simp_all add: truthy_str_def)
  show ?thesis
    using assms(1,2,4,6) ts md sa ea
    by (simp add: deriveItemAges_def Let_def)
qed


theorem deriveItemAges_month_thresholds_witness:
  "d_end_age (deriveItemAges isoDate (dateItem ''2010-01-15'' ''2010-03-15'') ''2000-02-01'' 80) = None \<and>
   d_end_age (deriveItemAges isoDate (dateItem ''2010-01-15'' ''2010-04-15'') ''2000-02-01'' 80) = Some 10 \<and>
   d_end_age (deriveItemAges isoDate (dateItem ''2010-01-15'' ''2011-01-15'') ''2000-02-01'' 80) = Some 10 \<and>
   d_end_age (deriveItemAges isoDate (dateItem ''2010-01-15'' ''2011-02-15'') ''2000-02-01'' 80) = Some 11 \<and>
   d_end_age (deriveItemAges isoDate (dateItem ''2010-01-31'' ''2010-04-30'') ''2000-02-01'' 80) = None \<and>
   d_start_age (deriveItemAges isoDate (dateItem ''2010-01-15'' ''2013-02-15'') ''2000-02-20'' 80) = 9 \<and>
   d_end_age (deriveItemAges isoDate (dateItem ''2010-01-15'' ''2013-02-15'') ''2000-02-20'' 80) = Some 12"
proof -
  note d = isoDate_examples
  have pre: "input_mode (dateItem s e) = Some DateMode" "start_date (dateItem s e) = Some s"
    "end_date (dateItem s e) = Some e" "\<not> truthy_bool (use_max_age (dateItem s e))" for s e
    by (simp_all add: dateItem_def sampleItem_def truthy_bool_def)
  show ?thesis
    using
      deriveItemAges_month_thresholds
        [where item = "dateItem ''2010-01-15'' ''2010-03-15''" and s = "''2010-01-15''" and e = "''2010-03-15''" and nd = isoDate
           and sy = 2010 and sm = 0 and sd = 15 and ey = 2010 and em = 2 and ed = 15
           and months = "(2010 - 2010) * 12 + (2 - 0) - (if (15::int) < 15 then 1 else 0)"
           and dob = "''2000-02-01''" and rng = 80 and yb = 2000 and mb = 1 and db = 1]
      deriveItemAges_month_thresholds
        [where item = "dateItem ''2010-01-15'' ''2010-04-15''" and s = "''2010-01-15''" and e = "''2010-04-15''" and nd = isoDate
           and sy = 2010 and sm = 0 and sd = 15 and ey = 2010 and em = 3 and ed = 15
           and months = "(2010 - 2010) * 12 + (3 - 0) - (if (15::int) < 15 then 1 else 0)"
           and dob = "''2000-02-01''" and rng = 80 and yb = 2000 and mb = 1 and db = 1]
      deriveItemAges_month_thresholds
        [where item = "dateItem ''2010-01-15'' ''2011-01-15''" and s = "''2010-01-15''" and e = "''2011-01-15''" and nd = isoDate
           and sy = 2010 and sm = 0 and sd = 15 and ey = 2011 and em = 0 and ed = 15
           and months = "(2011 - 2010) * 12 + (0 - 0) - (if (15::int) < 15 then 1 else 0)"
           and dob = "''2000-02-01''" and rng = 80 and yb = 2000 and mb = 1 and db = 1]
      deriveItemAges_month_thresholds
        [where item = "dateItem ''2010-01-15'' ''2011-02-15''" and s = "''2010-01-15''" and e = "''2011-02-15''" and nd = isoDate
           and sy = 2010 and sm = 0 and sd = 15 and ey = 2011 and em = 1 and ed = 15
           and months = "(2011 - 2010) * 12 + (1 - 0) - (if (15::int) < 15 then 1 else 0)"
           and dob = "''2000-02-01''" and rng = 80 and yb = 2000 and mb = 1 and db = 1]
      deriveItemAges_month_thresholds
        [where item = "dateItem ''2010-01-31'' ''2010-04-30''" and s = "''2010-01-31''" and e = "''2010-04-30''" and nd = isoDate
           and sy = 2010 and sm = 0 and sd = 31 and ey = 2010 and em = 3 and ed = 30
           and months = "(2010 - 2010) * 12 + (3 - 0) - (if (30::int) < 31 then 1 else 0)"
           and dob = "''2000-02-01''" and rng = 80 and yb = 2000 and mb = 1 and db = 1]
      deriveItemAges_month_thresholds
        [where item = "dateItem ''2010-01-15'' ''2013-02-15''" and s = "''2010-01-15''" and e = "''2013-02-15''" and nd = isoDate
           and sy = 2010 and sm = 0 and sd = 15 and ey = 2013 and em = 1 and ed = 15
           and months = "(2013 - 2010) * 12 + (1 - 0) - (if (15::int) < 15 then 1 else 0)"
           and dob = "''2000-02-20''" and rng = 80 and yb = 2000 and mb = 1 and db = 20]
    by (simp add: d pre)
qed

text \<open>
  The example of the specification: 2010-06-15 to 2010-08-01 is a span of one whole
  month, so the item is a milestone at age 10.
\<close>

lemma deriveItemAges_spec_example:
  "deriveItemAges isoDate (dateItem ''2010-06-15'' ''2010-08-01'') ''2000-01-01'' 80
     = \<lparr>d_start_age = 10, d_end_age = None\<rparr>"
  by (simp add: deriveItemAges_def dateItem_def sampleItem_def truthy_str_def truthy_bool_def
      calculateAgeAtDate_def calculateMonthsDiff_def isoDate_examples Let_def)

text \<open>
  C3. An item whose \<open>use_max_age\<close> flag is set normalizes, in either input mode and for
  every date of birth, to an end age equal to the age range passed in; the stored
  \<open>end_age\<close> and \<open>end_date\<close> play no part (they may be replaced by anything). Run again
  with another age range the function returns that other value: nothing is cached.
\<close>

theorem deriveItemAges_use_max_age:
  assumes "use_max_age item = Some True"
  shows "d_end_age (deriveItemAges nd item dob rng) = Some rng \<and>
         d_end_age (deriveItemAges nd (item\<lparr>end_age := ea, end_date := ed\<rparr>) dob rng) = Some rng"
  using assms by (simp add: deriveItemAges_def truthy_bool_def Let_def)

theorem deriveItemAges_use_max_age_witness:
  "d_end_age (deriveItemAges isoDate (sampleItem\<lparr>use_max_age := Some True, end_age := Some 80\<rparr>)
                ''2000-01-01'' 60) = Some 60 \<and>
   d_end_age (deriveItemAges isoDate
                (sampleItem\<lparr>use_max_age := Some True, input_mode := Some DateMode,
                              start_date := Some ''2010-01-15'', end_date := Some ''2011-02-15''\<rparr>)
                ''2000-01-01'' 60) = Some 60"
  using deriveItemAges_use_max_age
          [of "sampleItem\<lparr>use_max_age := Some True, end_age := Some 80\<rparr>" isoDate "''2000-01-01''" 60]
        deriveItemAges_use_max_age
          [of "sampleItem\<lparr>use_max_age := Some True, input_mode := Some DateMode,
                            start_date := Some ''2010-01-15'', end_date := Some ''2011-02-15''\<rparr>"
              isoDate "''2000-01-01''" 60]
  by simp

text \<open>
  C9. An item tagged \<open>date\<close> whose start date is absent or empty is normalized by the
  age branch: its start age is the stored \<open>start_age\<close> (0 when absent) and its end age is
  the age range when \<open>use_max_age\<close> is set, the stored \<open>end_age\<close> otherwise.
\<close>

theorem deriveItemAges_date_without_start:
  assumes "input_mode item = Some DateMode"
    and "start_date item = None \<or> start_date item = Some []"
  shows "deriveItemAges nd item dob rng =
           \<lparr>d_start_age = (case start_age item of None \<Rightarrow> 0 | Some a \<Rightarrow> a),
            d_end_age = (if use_max_age item = Some True then Some rng else end_age item)\<rparr>"
proof -
  have "\<not> truthy_str (start_date item)"
    using assms(2) by (auto simp: truthy_str_def)
  moreover have "truthy_bool (use_max_age item) = (use_max_age item = Some True)"
    by (cases "use_max_age item") (simp_all add: truthy_bool_def)
  ultimately show ?thesis
    by (simp add: deriveItemAges_def)
qed

theorem deriveItemAges_date_without_start_witness:
  "deriveItemAges isoDate
     (sampleItem\<lparr>input_mode := Some DateMode, start_date := Some [], end_date := Some ''2011-02-15'',
                   start_age := Some 30, end_age := Some 35\<rparr>) ''2000-01-01'' 80
     = \<lparr>d_start_age = 30, d_end_age = Some 35\<rparr> \<and>
   deriveItemAges isoDate
     (sampleItem\<lparr>input_mode := Some DateMode, end_date := Some ''2011-02-15''\<rparr>) ''2000-01-01'' 80
     = \<lparr>d_start_age = 0, d_end_age = None\<rparr>"
  using deriveItemAges_date_without_start
          [of "sampleItem\<lparr>input_mode := Some DateMode, start_date := Some [],
                            end_date := Some ''2011-02-15'', start_age := Some 30, end_age := Some 35\<rparr>"
              isoDate "''2000-01-01''" 80]
        deriveItemAges_date_without_start
          [of "sampleItem\<lparr>input_mode := Some DateMode, end_date := Some ''2011-02-15''\<rparr>"
              isoDate "''2000-01-01''" 80]
  by (simp add: sampleItem_def)

section \<open>Properties of the Display-Range Selector\<close>

lemma fold_keeps_bounds:
  assumes "\<And>x a b. \<exists>a' b'. f x (Some a, Some b) = (Some a', Some b')"
  shows "\<exists>a b. fold f xs (Some mn, Some mx) = (Some a, Some b)"
  using assms
proof (induction xs arbitrary: mn mx)
  case Nil
  then show ?case by simp
next
  case (Cons x xs)
  obtain a' b' where "f x (Some mn, Some mx) = (Some a', Some b')"
    using Cons.prems by blast
  then show ?case
    using Cons.IH [OF Cons.prems] by simp
qed

text \<open>The branch \<open>minAge === Infinity\<close> is dead once an item has been scanned.\<close>

lemma scanAges_nonempty:
  assumes "items P \<noteq> []"
  shows "\<exists>mn mx. scanAges P = (Some mn, Some mx)"
proof -
  obtain x xs where xs: "items P = x # xs"
    using assms by (cases "items P") auto
  show ?thesis
    unfolding scanAges_def xs
    by (simp add: Let_def) (rule fold_keeps_bounds, simp add: Let_def)
qed

text \<open>
  What the code after the scan computes, in terms of the start and the floored range
  that it has reached before the past-view clamp: the start is not negative (and not
  below the current age in the future view) and the floored range is at least 20.
\<close>

lemma fitDisplayRange_shape:
  "\<exists>fs fr0. 0 \<le> fs \<and> (vm = ViewFuture \<longrightarrow> cur \<le> fs) \<and> 20 \<le> fr0 \<and>
     fitDisplayRange vm cur rng mn mx =
       (let fr = (if vm = ViewPast \<and> fs + fr0 > cur then cur - fs else fr0)
        in if fs + fr > rng then
             (let capped = min fr (rng - fs)
              in if vm = ViewFuture then \<lparr>startAge = max cur (rng - capped), displayRange = capped\<rparr>
                 else if vm = ViewPast then \<lparr>startAge = max 0 (cur - capped), displayRange = capped\<rparr>
                 else \<lparr>startAge = max 0 (rng - capped), displayRange = capped\<rparr>)
           else \<lparr>startAge = fs, displayRange = fr\<rparr>)"
proof -
  define padding where "padding = (if mx - mn > 0 then max ((mx - mn) * (1 / 10)) 5 else 5)"
  define cs0 where "cs0 = max 0 (real_of_int \<lfloor>mn - padding\<rfloor>)"
  define ce where "ce = real_of_int \<lceil>mx + padding\<rceil>"
  define cs1 where "cs1 = (if vm = ViewFuture \<and> cs0 < cur then cur else cs0)"
  define cs where "cs = (if vm = ViewPast \<and> ce > cur then
               (if cur - cs1 < 20 then max 0 (cur - 20) else cs1) else cs1)"
  define fr0 where "fr0 = max (ce - cs) 20"
  define fs where "fs = (if vm = ViewFuture then max (max 0 cs) cur else max 0 cs)"
  have eq: "fitDisplayRange vm cur rng mn mx =
       (let fr = (if vm = ViewPast \<and> fs + fr0 > cur then cur - fs else fr0)
        in if fs + fr > rng then
             (let capped = min fr (rng - fs)
              in if vm = ViewFuture then \<lparr>startAge = max cur (rng - capped), displayRange = capped\<rparr>
                 else if vm = ViewPast then \<lparr>startAge = max 0 (cur - capped), displayRange = capped\<rparr>
                 else \<lparr>startAge = max 0 (rng - capped), displayRange = capped\<rparr>)
           else \<lparr>startAge = fs, displayRange = fr\<rparr>)"
    unfolding fitDisplayRange_def fs_def fr0_def cs_def cs1_def ce_def cs0_def padding_def Let_def
    by (rule refl)
  have "0 \<le> fs"
    by (auto simp: fs_def le_max_iff_disj)
  moreover have "vm = ViewFuture \<longrightarrow> cur \<le> fs"
    by (auto simp: fs_def le_max_iff_disj)
  moreover have "20 \<le> fr0"
    by (simp add: fr0_def)
  ultimately show ?thesis
    using eq by blast
qed

lemma capped_window_bounds:
  fixes fs fr0 cur rng :: real
  assumes "0 \<le> fs" and "vm = ViewFuture \<longrightarrow> cur \<le> fs" and "20 \<le> fr0"
  defines "R \<equiv> (let fr = (if vm = ViewPast \<and> fs + fr0 > cur then cur - fs else fr0)
        in if fs + fr > rng then
             (let capped = min fr (rng - fs)
              in if vm = ViewFuture then \<lparr>startAge = max cur (rng - capped), displayRange = capped\<rparr>
                 else if vm = ViewPast then \<lparr>startAge = max 0 (cur - capped), displayRange = capped\<rparr>
                 else \<lparr>startAge = max 0 (rng - capped), displayRange = capped\<rparr>)
           else \<lparr>startAge = fs, displayRange = fr\<rparr>)"
  shows "(vm \<noteq> ViewPast \<or> cur \<le> rng \<longrightarrow> startAge R + displayRange R \<le> rng) \<and>
         (vm \<noteq> ViewPast \<longrightarrow> 20 \<le> displayRange R \<or> startAge R + displayRange R = rng)"
  using assms(1-3) unfolding R_def by (cases vm) (auto simp: Let_def)

lemma fitDisplayRange_bounds:
  "(vm \<noteq> ViewPast \<or> cur \<le> rng \<longrightarrow>
      startAge (fitDisplayRange vm cur rng mn mx) + displayRange (fitDisplayRange vm cur rng mn mx) \<le> rng) \<and>
   (vm \<noteq> ViewPast \<longrightarrow>
      20 \<le> displayRange (fitDisplayRange vm cur rng mn mx) \<or>
      startAge (fitDisplayRange vm cur rng mn mx) + displayRange (fitDisplayRange vm cur rng mn mx) = rng)"
proof -
  obtain fs fr0 where h: "0 \<le> fs" "vm = ViewFuture \<longrightarrow> cur \<le> fs" "20 \<le> fr0"
    and eq: "fitDisplayRange vm cur rng mn mx =
       (let fr = (if vm = ViewPast \<and> fs + fr0 > cur then cur - fs else fr0)
        in if fs + fr > rng then
             (let capped = min fr (rng - fs)
              in if vm = ViewFuture then \<lparr>startAge = max cur (rng - capped), displayRange = capped\<rparr>
                 else if vm = ViewPast then \<lparr>startAge = max 0 (cur - capped), displayRange = capped\<rparr>
                 else \<lparr>startAge = max 0 (rng - capped), displayRange = capped\<rparr>)
           else \<lparr>startAge = fs, displayRange = fr\<rparr>)"
    using fitDisplayRange_shape [of vm cur rng mn mx] by blast
  show ?thesis
    unfolding eq by (rule capped_window_bounds [OF h])
qed

text \<open>
  The two ceilings that the selector applies on purpose. Outside the past view the range
  is at least 20 unless the window was capped and ends exactly at the age range (the
  step commented \<open>Cap the range to not exceed ageRange\<close>). The window ends at or below
  the age range whenever there is an item (in the past view, when the current age does
  not exceed the age range); the defaults for an empty item set do not look at the age
  range, so there the bound needs room for 20 years.
\<close>

lemma calculateDisplayRange_ceilings:
  assumes "autoScale P"
  shows "(viewMode P \<noteq> ViewPast \<longrightarrow>
            20 \<le> displayRange (calculateDisplayRange P) \<or>
            startAge (calculateDisplayRange P) + displayRange (calculateDisplayRange P)
              = ageRange P) \<and>
         (viewMode P = ViewAll \<or>
          (viewMode P = ViewFuture \<and> (items P \<noteq> [] \<or> currentAge P + 20 \<le> ageRange P)) \<or>
          (viewMode P = ViewPast \<and> currentAge P \<le> ageRange P \<and> (items P \<noteq> [] \<or> 20 \<le> ageRange P))
          \<longrightarrow> startAge (calculateDisplayRange P) + displayRange (calculateDisplayRange P)
                \<le> ageRange P)"
proof (cases "items P = []")
  case True
  then show ?thesis
    using assms by (cases "viewMode P") (auto simp: calculateDisplayRange_def Let_def)
next
  case False
  then obtain mn mx where "scanAges P = (Some mn, Some mx)"
    using scanAges_nonempty by blast
  then have eq: "calculateDisplayRange P
                   = fitDisplayRange (viewMode P) (currentAge P) (ageRange P) mn mx"
    using assms False by (simp add: calculateDisplayRange_def)
  show ?thesis
    unfolding eq
    using fitDisplayRange_bounds [of "viewMode P" "currentAge P" "ageRange P" mn mx] False
    by (cases "viewMode P") auto
qed

lemma calculateDisplayRange_sampleFutureEmpty:
  "calculateDisplayRange sampleFutureEmpty = \<lparr>startAge = 70, displayRange = 20\<rparr>"
  by (simp add: calculateDisplayRange_def sampleFutureEmpty_def)

text \<open>
  C4 does not hold of the code in the past view. With \<open>autoScale\<close> on, at current age 30
  and an age range of 80, one milestone at 22 gives the window from 17 with a range of
  13, and one at 25 the window from 20 with a range of 10, although the window from 10
  to 30 meets both halves of the claim. A milestone at 29 does get that window: its
  padded end 34 exceeds the current age, so the step commented \<open>Ensure minimum range\<close>
  moves the start back to 10. The later clamp of the end to the current age cuts the
  range and moves no start.
\<close>

theorem calculateDisplayRange_past_floor_lost:
  "autoScale samplePast \<and> viewMode samplePast = ViewPast \<and>
   currentAge samplePast = 30 \<and> ageRange samplePast = 80 \<and>
   calculateDisplayRange samplePast = \<lparr>startAge = 17, displayRange = 13\<rparr> \<and>
   calculateDisplayRange (samplePastAt 25) = \<lparr>startAge = 20, displayRange = 10\<rparr> \<and>
   calculateDisplayRange (samplePastAt 29) = \<lparr>startAge = 10, displayRange = 20\<rparr>"
  by code_simp

section \<open>Properties of the Stacking Allocator\<close>

lemma placeItem_result:
  assumes "placeItem ov x stacks = (stacks', i)"
  shows "(i < length stacks \<and> stacks' = stacks[i := stacks ! i @ [x]] \<and>
            (\<forall>y \<in> set (stacks ! i). \<not> ov x y)) \<or>
         (i = length stacks \<and> stacks' = stacks @ [[x]])"
  using assms
proof (induction stacks arbitrary: stacks' i)
  case Nil
  then show ?case by simp
next
  case (Cons stack rest)
  show ?case
  proof (cases "list_all (\<lambda>stackItem. \<not> ov x stackItem) stack")
    case True
    then show ?thesis using Cons.prems by (auto simp: list_all_iff)
  next
    case False
    obtain rest' j where r: "placeItem ov x rest = (rest', j)" by (cases "placeItem ov x rest")
    from Cons.prems False r have eq: "stacks' = stack # rest'" "i = Suc j" by auto
    from Cons.IH [OF r] show ?thesis unfolding eq by auto
  qed
qed

lemma stack_inv_step:
  assumes inv: "stack_inv ov ident placed (stacks, m)"
    and sym: "\<And>a b. ov a b = ov b a"
    and fresh: "ident x \<notin> ident ` placed"
    and place: "placeItem ov x stacks = (stacks', i)"
  shows "stack_inv ov ident (insert x placed) (stacks', AList.update (ident x) i m)"
proof -
  from inv have ne: "\<forall>lane \<in> set stacks. lane \<noteq> []"
    and mp: "\<forall>k < length stacks. \<forall>y \<in> set (stacks ! k). map_of m (ident y) = Some k"
    and no: "\<forall>k < length stacks. \<forall>y \<in> set (stacks ! k). \<forall>z \<in> set (stacks ! k). y \<noteq> z \<longrightarrow> \<not> ov y z"
    and dm: "fst ` set m = ident ` placed"
    and un: "\<Union> (set ` set stacks) = placed"
    and di: "distinct (map fst m)"
    by (auto simp: stack_inv_def)
  have old: "y \<in> set (stacks ! k) \<Longrightarrow> k < length stacks \<Longrightarrow> y \<in> placed" for y k
    using un nth_mem by fastforce
  have oldid: "ident y \<noteq> ident x" if "y \<in> set (stacks ! k)" "k < length stacks" for y k
  proof
    assume e: "ident y = ident x"
    have "y \<in> placed" using old that by blast
    then have "ident y \<in> ident ` placed" by (rule imageI)
    then show False using fresh e by simp
  qed
  have dm': "fst ` set (AList.update (ident x) i m) = ident ` insert x placed"
    using dm by (simp add: dom_update)
  have di': "distinct (map fst (AList.update (ident x) i m))"
    using di by (rule distinct_update)
  from placeItem_result [OF place] show ?thesis
  proof (elim disjE conjE)
    assume i: "i < length stacks" and s': "stacks' = stacks[i := stacks ! i @ [x]]"
      and nov: "\<forall>y \<in> set (stacks ! i). \<not> ov x y"
    have len: "length stacks' = length stacks" by (simp add: s')
    have nth': "stacks' ! k = (if k = i then stacks ! i @ [x] else stacks ! k)" if "k < length stacks" for k
      using that by (simp add: s' nth_list_update)
    have 1: "\<forall>lane \<in> set stacks'. lane \<noteq> []"
      using ne unfolding s' by (auto dest!: set_update_subset_insert [THEN subsetD])
    have 2: "\<forall>k < length stacks'. \<forall>y \<in> set (stacks' ! k). map_of (AList.update (ident x) i m) (ident y) = Some k"
      using mp oldid by (auto simp: len nth' update_conv')
    have 3: "\<forall>k < length stacks'. \<forall>y \<in> set (stacks' ! k). \<forall>z \<in> set (stacks' ! k). y \<noteq> z \<longrightarrow> \<not> ov y z"
      using no nov sym by (auto simp: len nth' split: if_splits)
    have 5: "\<Union> (set ` set stacks') = insert x placed"
    proof -
      have "set stacks' = {stacks' ! k |k. k < length stacks}"
        using len by (auto simp: set_conv_nth)
      then have "\<Union> (set ` set stacks') = (\<Union>k\<in>{..<length stacks}. set (stacks' ! k))" by auto
      also have "\<dots> = insert x (\<Union>k\<in>{..<length stacks}. set (stacks ! k))"
        using i by (auto simp: nth' split: if_splits)
      also have "(\<Union>k\<in>{..<length stacks}. set (stacks ! k)) = \<Union> (set ` set stacks)"
        by (auto simp: set_conv_nth)
      finally show ?thesis using un by simp
    qed
    show ?thesis
      unfolding stack_inv_def using 1 2 3 dm' 5 di' by simp
  next
    assume i: "i = length stacks" and s': "stacks' = stacks @ [[x]]"
    have 1: "\<forall>lane \<in> set stacks'. lane \<noteq> []"
      using ne by (auto simp: s')
    have 2: "\<forall>k < length stacks'. \<forall>y \<in> set (stacks' ! k). map_of (AList.update (ident x) i m) (ident y) = Some k"
      using mp oldid i by (auto simp: s' nth_append update_conv' less_Suc_eq)
    have 3: "\<forall>k < length stacks'. \<forall>y \<in> set (stacks' ! k). \<forall>z \<in> set (stacks' ! k). y \<noteq> z \<longrightarrow> \<not> ov y z"
      using no by (auto simp: s' nth_append less_Suc_eq)
    have 5: "\<Union> (set ` set stacks') = insert x placed"
      using un by (auto simp: s')
    show ?thesis
      unfolding stack_inv_def using 1 2 3 dm' 5 di' by simp
  qed
qed

lemma stack_inv_loop:
  assumes "stack_inv ov ident placed st"
    and "\<And>a b. ov a b = ov b a"
    and "distinct (map ident xs)"
    and "ident ` set xs \<inter> ident ` placed = {}"
  shows "stack_inv ov ident (placed \<union> set xs) (stackLoop ov ident xs st)"
  using assms
proof (induction xs arbitrary: st placed)
  case Nil
  then show ?case by simp
next
  case (Cons x xs)
  obtain stacks m where st: "st = (stacks, m)" by (cases st)
  obtain stacks' i where p: "placeItem ov x stacks = (stacks', i)" by (cases "placeItem ov x stacks")
  have fresh: "ident x \<notin> ident ` placed" using Cons.prems(4) by auto
  have step: "stack_inv ov ident (insert x placed) (stacks', AList.update (ident x) i m)"
    using stack_inv_step [OF Cons.prems(1) [unfolded st] Cons.prems(2) fresh p] .
  have d: "distinct (map ident xs)" using Cons.prems(3) by simp
  have disj: "ident ` set xs \<inter> ident ` insert x placed = {}"
    using Cons.prems(3,4) by auto
  have "stack_inv ov ident (insert x placed \<union> set xs)
          (stackLoop ov ident xs (stacks', AList.update (ident x) i m))"
    by (rule Cons.IH [OF step Cons.prems(2) d disj])
  then show ?case by (simp add: st p)
qed

lemma mset_insertSorted: "mset (insertSorted cmp x ys) = add_mset x (mset ys)"
  by (induction ys) auto

lemma mset_js_sort: "mset (js_sort cmp xs) = mset xs"
  unfolding js_sort_def by (induction xs) (auto simp: mset_insertSorted)

lemma itemsOverlap_sym: "itemsOverlap P a b = itemsOverlap P b a"
  by (auto simp: itemsOverlap_def Let_def)

lemma assignStackPositions_inv:
  assumes "distinct (map item_id cItems)"
  shows "stack_inv (itemsOverlap P) item_id (set cItems)
           (stackLoop (itemsOverlap P) item_id (sortedItems P cItems) ([], []))"
proof -
  have m: "mset (sortedItems P cItems) = mset cItems"
    by (simp add: sortedItems_def mset_js_sort)
  then have s: "set (sortedItems P cItems) = set cItems"
    by (rule mset_eq_setD)
  have "mset (map item_id (sortedItems P cItems)) = mset (map item_id cItems)"
    using m by (metis mset_map)
  then have d: "distinct (map item_id (sortedItems P cItems))"
    using assms mset_eq_imp_distinct_iff by blast
  have i0: "stack_inv (itemsOverlap P) item_id {} ([], [])"
    by (simp add: stack_inv_def)
  have "stack_inv (itemsOverlap P) item_id ({} \<union> set (sortedItems P cItems))
          (stackLoop (itemsOverlap P) item_id (sortedItems P cItems) ([], []))"
    by (rule stack_inv_loop [OF i0 itemsOverlap_sym d]) simp
  then show ?thesis
    by (simp add: s)
qed

lemma sampleTimeline_positions:
  "assignStackPositions sampleTimeline [itemA, itemB, itemC, itemD] = [(1, 0), (2, 1), (4, 2), (3, 0)]"
  by code_simp

text \<open>
  C1. After \<open>assignStackPositions\<close> has run on the items of one category (whose
  identifiers are unique, as the data model requires), two distinct items that the
  returned map sends to the same lane do not overlap.
\<close>

theorem assignStackPositions_no_overlap:
  assumes "distinct (map item_id categoryItems)"
    and "a \<in> set categoryItems" and "b \<in> set categoryItems" and "a \<noteq> b"
    and "map_of (assignStackPositions P categoryItems) (item_id a)
           = map_of (assignStackPositions P categoryItems) (item_id b)"
  shows "\<not> itemsOverlap P a b"
proof -
  obtain stacks m where
    r: "stackLoop (itemsOverlap P) item_id (sortedItems P categoryItems) ([], []) = (stacks, m)"
    by (cases "stackLoop (itemsOverlap P) item_id (sortedItems P categoryItems) ([], [])")
  have pos: "assignStackPositions P categoryItems = m"
    by (simp add: assignStackPositions_def r)
  have inv: "stack_inv (itemsOverlap P) item_id (set categoryItems) (stacks, m)"
    using assignStackPositions_inv [OF assms(1), of P] r by simp
  then have mp: "\<forall>k < length stacks. \<forall>y \<in> set (stacks ! k). map_of m (item_id y) = Some k"
    and no: "\<forall>k < length stacks. \<forall>y \<in> set (stacks ! k). \<forall>z \<in> set (stacks ! k).
               y \<noteq> z \<longrightarrow> \<not> itemsOverlap P y z"
    and un: "\<Union> (set ` set stacks) = set categoryItems"
    by (auto simp: stack_inv_def)
  have lane: "\<exists>k < length stacks. x \<in> set (stacks ! k)" if "x \<in> set categoryItems" for x
  proof -
    from that un obtain l where "l \<in> set stacks" "x \<in> set l" by blast
    then show ?thesis by (auto simp: in_set_conv_nth)
  qed
  obtain ka where ka: "ka < length stacks" "a \<in> set (stacks ! ka)"
    using lane [OF assms(2)] by blast
  obtain kb where kb: "kb < length stacks" "b \<in> set (stacks ! kb)"
    using lane [OF assms(3)] by blast
  have "map_of m (item_id a) = Some ka" "map_of m (item_id b) = Some kb"
    using mp ka kb by auto
  then have "ka = kb"
    using assms(5) by (simp add: pos)
  then show ?thesis
    using no ka kb assms(4) by blast
qed

theorem assignStackPositions_no_overlap_witness:
  "map_of (assignStackPositions sampleTimeline [itemA, itemB, itemC, itemD]) (item_id itemA) = Some 0 \<and>
   map_of (assignStackPositions sampleTimeline [itemA, itemB, itemC, itemD]) (item_id itemC) = Some 0 \<and>
   \<not> itemsOverlap sampleTimeline itemA itemC"
proof -
  have ids: "item_id itemA = 1" "item_id itemB = 2" "item_id itemC = 3" "item_id itemD = 4"
    by (simp_all add: itemA_def itemB_def itemC_def itemD_def sampleItem_def)
  have d: "distinct (map item_id [itemA, itemB, itemC, itemD])"
    by (simp add: ids)
  have ne: "itemA \<noteq> itemC"
    using ids by auto
  have la: "map_of (assignStackPositions sampleTimeline [itemA, itemB, itemC, itemD]) (item_id itemA) = Some 0"
    and lc: "map_of (assignStackPositions sampleTimeline [itemA, itemB, itemC, itemD]) (item_id itemC) = Some 0"
    by (simp_all add: sampleTimeline_positions ids)
  show ?thesis
    using assignStackPositions_no_overlap [OF d _ _ ne, of sampleTimeline] la lc by simp
qed

lemma Max_lessThan_nat: "0 < K \<Longrightarrow> Max {..<K::nat} = K - 1"
  by (rule Max_eqI) auto

lemma assignStackPositions_lane_set:
  assumes "distinct (map item_id categoryItems)"
  shows "(\<forall>x \<in> set categoryItems.
            \<exists>k. map_of (assignStackPositions P categoryItems) (item_id x) = Some k) \<and>
         distinct (map fst (assignStackPositions P categoryItems)) \<and>
         fst ` set (assignStackPositions P categoryItems) = item_id ` set categoryItems \<and>
         (\<exists>K. snd ` set (assignStackPositions P categoryItems) = {..<K} \<and>
              maxStackOf (assignStackPositions P categoryItems)
                = (if categoryItems = [] then 1 else K) \<and>
              (categoryItems \<noteq> [] \<longrightarrow>
                 K = Max (snd ` set (assignStackPositions P categoryItems)) + 1))"
proof -
  obtain stacks m where
    r: "stackLoop (itemsOverlap P) item_id (sortedItems P categoryItems) ([], []) = (stacks, m)"
    by (cases "stackLoop (itemsOverlap P) item_id (sortedItems P categoryItems) ([], [])")
  have pos: "assignStackPositions P categoryItems = m"
    by (simp add: assignStackPositions_def r)
  have inv: "stack_inv (itemsOverlap P) item_id (set categoryItems) (stacks, m)"
    using assignStackPositions_inv [OF assms(1), of P] r by simp
  then have ne: "\<forall>lane \<in> set stacks. lane \<noteq> []"
    and mp: "\<forall>k < length stacks. \<forall>y \<in> set (stacks ! k). map_of m (item_id y) = Some k"
    and dm: "fst ` set m = item_id ` set categoryItems"
    and un: "\<Union> (set ` set stacks) = set categoryItems"
    and di: "distinct (map fst m)"
    by (auto simp: stack_inv_def)
  have lane: "\<exists>k < length stacks. x \<in> set (stacks ! k)" if "x \<in> set categoryItems" for x
  proof -
    from that un obtain l where "l \<in> set stacks" "x \<in> set l" by blast
    then show ?thesis by (auto simp: in_set_conv_nth)
  qed
  have 1: "\<forall>x \<in> set categoryItems. \<exists>k. map_of m (item_id x) = Some k"
    using lane mp by blast
  have vals: "snd ` set m = {..<length stacks}"
  proof (intro set_eqI iffI)
    fix v assume "v \<in> snd ` set m"
    then obtain key where kv: "(key, v) \<in> set m" by auto
    then have "key \<in> item_id ` set categoryItems"
      using dm by force
    then obtain x where x: "x \<in> set categoryItems" "key = item_id x" by blast
    obtain k where k: "k < length stacks" "x \<in> set (stacks ! k)"
      using lane [OF x(1)] by blast
    have "map_of m key = Some k" using mp k x(2) by simp
    moreover have "map_of m key = Some v" using di kv by simp
    ultimately show "v \<in> {..<length stacks}" using k(1) by simp
  next
    fix v assume "v \<in> {..<length stacks}"
    then have v: "v < length stacks" by simp
    then have "stacks ! v \<noteq> []" using ne by simp
    then obtain y where y: "y \<in> set (stacks ! v)" by (cases "stacks ! v") auto
    then have "map_of m (item_id y) = Some v" using mp v by simp
    then have "(item_id y, v) \<in> set m" by (rule map_of_SomeD)
    then show "v \<in> snd ` set m" by force
  qed
  have empty: "(stacks = []) = (categoryItems = [])"
  proof
    assume "stacks = []" then show "categoryItems = []" using un by simp
  next
    assume "categoryItems = []"
    then have "\<Union> (set ` set stacks) = {}" using un by simp
    then have "\<forall>l \<in> set stacks. l = []" by auto
    then show "stacks = []" using ne by (cases stacks) auto
  qed
  have fm: "fold max (map snd m) 0 = Max (insert 0 (snd ` set m))"
    using Max.set_eq_fold [of 0 "map snd m"] by simp
  have ms: "maxStackOf m = (if categoryItems = [] then 1 else length stacks)"
  proof (cases "categoryItems = []")
    case True
    then have "stacks = []" using empty by simp
    then show ?thesis using True by (simp add: maxStackOf_def fm vals)
  next
    case False
    then have pos: "0 < length stacks" using empty by simp
    then have "insert 0 {..<length stacks} = {..<length stacks}" by auto
    then show ?thesis
      using False pos by (simp add: maxStackOf_def fm vals Max_lessThan_nat)
  qed
  have mx: "categoryItems \<noteq> [] \<longrightarrow> length stacks = Max (snd ` set m) + 1"
    using empty by (auto simp: vals Max_lessThan_nat)
  show ?thesis
    unfolding pos using 1 di dm vals ms mx by blast
qed

text \<open>The lane count of an empty category is 1.\<close>

lemma maxStackOf_empty: "maxStackOf (assignStackPositions P []) = 1"
  by (simp add: maxStackOf_def assignStackPositions_def sortedItems_def js_sort_def)

section \<open>Properties of the geometry\<close>

text \<open>
  A map filled by \<open>forEach\<close> holds, under each key, the value of the last element with
  that key.
\<close>

lemma find_append:
  "find p (xs @ ys) = (case find p xs of Some y \<Rightarrow> Some y | None \<Rightarrow> find p ys)"
  by (induction xs) auto

lemma map_of_fold_update:
  "map_of (fold (\<lambda>x m. AList.update (k x) (v x) m) xs m0) key =
     (case find (\<lambda>x. k x = key) (rev xs) of Some x \<Rightarrow> Some (v x) | None \<Rightarrow> map_of m0 key)"
proof (induction xs arbitrary: m0)
  case Nil
  then show ?case by simp
next
  case (Cons x xs)
  show ?case
    by (simp add: Cons.IH find_append update_conv' split: option.splits)
qed

lemma find_distinct_key:
  assumes "distinct (map k xs)" and "x \<in> set xs"
  shows "find (\<lambda>y. k y = k x) xs = Some x"
  using assms by (induction xs) (auto simp: image_iff)

lemma find_last_distinct:
  assumes "distinct (map k xs)" and "x \<in> set xs"
  shows "find (\<lambda>y. k y = k x) (rev xs) = Some x"
proof -
  have "distinct (map k (rev xs))" using assms(1) by (simp add: rev_map [symmetric])
  then show ?thesis using assms(2) by (intro find_distinct_key) auto
qed

lemma find_Some_member: "find p xs = Some y \<Longrightarrow> p y \<and> y \<in> set xs"
  by (induction xs) (auto split: if_splits)

lemma find_key_member:
  assumes "x \<in> set xs"
  shows "\<exists>y \<in> set xs. k y = k x \<and> find (\<lambda>y. k y = k x) (rev xs) = Some y"
proof -
  have "\<exists>y. find (\<lambda>y. k y = k x) (rev xs) = Some y"
    using assms by (cases "find (\<lambda>y. k y = k x) (rev xs)") (auto simp: find_None_iff)
  then obtain y where y: "find (\<lambda>y. k y = k x) (rev xs) = Some y" by blast
  then have "y \<in> set (rev xs)" "k y = k x"
    using find_Some_member [OF y] by auto
  then show ?thesis using y by auto
qed

lemma getItemAges_member:
  assumes "item \<in> set (items P)"
  shows "\<exists>y \<in> set (items P). item_id y = item_id item \<and>
           getItemAges P item = deriveItemAges (newDate P) y (dateOfBirth P) (ageRange P)"
proof -
  obtain y where y: "y \<in> set (items P)" "item_id y = item_id item"
    "find (\<lambda>y. item_id y = item_id item) (rev (items P)) = Some y"
    using find_key_member [OF assms, of item_id] by blast
  have "map_of (itemAges P) (item_id item)
          = Some (deriveItemAges (newDate P) y (dateOfBirth P) (ageRange P))"
    unfolding itemAges_def by (simp add: map_of_fold_update y(3))
  then show ?thesis using y by (auto simp: getItemAges_def)
qed

lemma getItemAges_same_id:
  assumes "item_id x = item_id y"
    and "x \<in> set (items P)"
  shows "getItemAges P x = getItemAges P y"
proof -
  obtain z where "map_of (itemAges P) (item_id x)
          = Some (deriveItemAges (newDate P) z (dateOfBirth P) (ageRange P))"
    using find_key_member [OF assms(2), of item_id]
    unfolding itemAges_def by (auto simp: map_of_fold_update)
  then show ?thesis using assms(1) by (simp add: getItemAges_def)
qed

lemma getItemAges_distinct:
  assumes "distinct (map item_id (items P))" and "item \<in> set (items P)"
  shows "getItemAges P item = deriveItemAges (newDate P) item (dateOfBirth P) (ageRange P)"
proof -
  have "map_of (itemAges P) (item_id item)
          = Some (deriveItemAges (newDate P) item (dateOfBirth P) (ageRange P))"
    unfolding itemAges_def
    by (simp add: map_of_fold_update find_last_distinct [OF assms])
  then show ?thesis by (simp add: getItemAges_def)
qed

lemma itemWidths_member:
  assumes "item \<in> set (items P)"
  shows "\<exists>y \<in> set (items P). item_id y = item_id item \<and>
           map_of (itemWidths P) (item_id item) = Some (itemWidth P y)"
proof -
  obtain y where y: "y \<in> set (items P)" "item_id y = item_id item"
    "find (\<lambda>y. item_id y = item_id item) (rev (items P)) = Some y"
    using find_key_member [OF assms, of item_id] by blast
  have "map_of (itemWidths P) (item_id item) = Some (itemWidth P y)"
    unfolding itemWidths_def by (simp add: map_of_fold_update y(3))
  then show ?thesis using y by auto
qed

lemma itemWidths_distinct:
  assumes "distinct (map item_id (items P))" and "item \<in> set (items P)"
  shows "map_of (itemWidths P) (item_id item) = Some (itemWidth P item)"
  unfolding itemWidths_def
  by (simp add: map_of_fold_update find_last_distinct [OF assms])

lemma js_max_not_below: "\<not> js_gt b (js_max (Fin a) b)"
  by (cases b) auto

text \<open>The width stored for an item that \<open>getItemAges\<close> reports as a bar.\<close>

lemma itemWidths_bar:
  assumes "item \<in> set (items P)"
    and "d_end_age (getItemAges P item) = Some e"
  shows "map_of (itemWidths P) (item_id item)
           = Some (js_max (Fin (ageToX P e - ageToX P (d_start_age (getItemAges P item))))
                          (js_div (width P) (AGE_RANGE P)))"
proof -
  obtain y where y: "y \<in> set (items P)" "item_id y = item_id item"
    "map_of (itemWidths P) (item_id item) = Some (itemWidth P y)"
    using itemWidths_member [OF assms(1)] by blast
  have ages: "getItemAges P y = getItemAges P item"
    using getItemAges_same_id [OF y(2) y(1)] .
  show ?thesis
    using assms(2) by (simp add: y(3) itemWidth_def ages oneYearWidth_def Let_def)
qed

text \<open>
  C7. For an item of the timeline whose normalized end age is present (the ages are
  those that \<open>getItemAges\<close> returns, which are the normalizer's when identifiers are
  unique), the stored width is \<open>Math.max(x(end) - x(start), TIMELINE_WIDTH / AGE_RANGE)\<close>,
  whatever the order of start and end; it is never below the width of one year.
\<close>

theorem itemWidths_span:
  assumes "item \<in> set (items P)"
    and "d_end_age (getItemAges P item) = Some e"
  shows "map_of (itemWidths P) (item_id item)
           = Some (js_max (Fin (ageToX P e - ageToX P (d_start_age (getItemAges P item))))
                          (js_div (width P) (AGE_RANGE P))) \<and>
         (\<forall>w. map_of (itemWidths P) (item_id item) = Some w \<longrightarrow> \<not> js_gt (oneYearWidth P) w) \<and>
         (AGE_RANGE P \<noteq> 0 \<longrightarrow>
            map_of (itemWidths P) (item_id item)
              = Some (Fin (max (ageToX P e - ageToX P (d_start_age (getItemAges P item)))
                               (width P / AGE_RANGE P)))) \<and>
         (distinct (map item_id (items P)) \<longrightarrow>
            getItemAges P item = deriveItemAges (newDate P) item (dateOfBirth P) (ageRange P))"
  using itemWidths_bar [OF assms] getItemAges_distinct [OF _ assms(1)]
  by (auto simp: js_max_not_below oneYearWidth_def js_div_def)

lemma sampleTimeline_ages:
  "getItemAges sampleTimeline itemA = \<lparr>d_start_age = 20, d_end_age = Some 25\<rparr>"
  "getItemAges sampleTimeline itemB = \<lparr>d_start_age = 22, d_end_age = None\<rparr>"
  "getItemAges sampleTimeline itemC = \<lparr>d_start_age = 25, d_end_age = Some 30\<rparr>"
  "getItemAges sampleTimeline itemD = \<lparr>d_start_age = 23, d_end_age = None\<rparr>"
  by code_simp+

lemma sampleTimeline_derived:
  "deriveItemAges (newDate sampleTimeline) itemA (dateOfBirth sampleTimeline) (ageRange sampleTimeline)
     = \<lparr>d_start_age = 20, d_end_age = Some 25\<rparr>"
  "deriveItemAges (newDate sampleTimeline) itemB (dateOfBirth sampleTimeline) (ageRange sampleTimeline)
     = \<lparr>d_start_age = 22, d_end_age = None\<rparr>"
  "deriveItemAges (newDate sampleTimeline) itemC (dateOfBirth sampleTimeline) (ageRange sampleTimeline)
     = \<lparr>d_start_age = 25, d_end_age = Some 30\<rparr>"
  "deriveItemAges (newDate sampleTimeline) itemD (dateOfBirth sampleTimeline) (ageRange sampleTimeline)
     = \<lparr>d_start_age = 23, d_end_age = None\<rparr>"
  by code_simp+

lemma sampleTimeline_geometry:
  "AGE_RANGE sampleTimeline = 80"
  "ageToX sampleTimeline 20 = 300"
  "ageToX sampleTimeline 22 = 330"
  "ageToX sampleTimeline 23 = 345"
  "ageToX sampleTimeline 25 = 375"
  "calculatePointItemWidth sampleTimeline (title itemB) = 50"
  "calculatePointItemWidth sampleTimeline (title itemD) = 50"
  by code_simp+

lemma sampleTimeline_members:
  "itemA \<in> set (items sampleTimeline)" "itemB \<in> set (items sampleTimeline)"
  "itemC \<in> set (items sampleTimeline)" "itemD \<in> set (items sampleTimeline)"
  "distinct (map item_id (items sampleTimeline))" "0 < zoom sampleTimeline"
  by (simp_all add: sampleTimeline_def itemA_def itemB_def itemC_def itemD_def sampleItem_def)

theorem itemWidths_span_witness:
  "itemA \<in> set (items sampleTimeline) \<and>
   d_end_age (getItemAges sampleTimeline itemA) = Some 25 \<and>
   map_of (itemWidths sampleTimeline) (item_id itemA) = Some (Fin 75) \<and>
   width sampleTimeline / AGE_RANGE sampleTimeline = 15"
proof -
  have e: "d_end_age (getItemAges sampleTimeline itemA) = Some 25"
    by (simp add: sampleTimeline_ages)
  have w: "width sampleTimeline = 1200"
    by (simp add: sampleTimeline_def)
  show ?thesis
    using itemWidths_span [OF sampleTimeline_members(1) e] e
    by (simp add: sampleTimeline_members sampleTimeline_geometry sampleTimeline_ages w js_div_def)
qed

section \<open>The lane count recorded for a category\<close>

lemma categoryItemsOf_distinct:
  assumes "distinct (map item_id (items P))"
  shows "distinct (map item_id (categoryItemsOf P c))"
  using assms by (simp add: categoryItemsOf_def distinct_map_filter)

lemma categoryMaxStacks_lookup:
  assumes "distinct (map cat_id (categories P))" and "c \<in> set (categories P)"
  shows "map_of (categoryMaxStacks P) (cat_id c)
           = Some (maxStackOf (assignStackPositions P (categoryItemsOf P c)))"
  unfolding categoryMaxStacks_def
  by (simp add: map_of_fold_update find_last_distinct [OF assms])

text \<open>
  C10. For a list of items with unique identifiers the map that \<open>assignStackPositions\<close>
  returns has exactly one entry for each item, and the lanes in use are \<open>0, \<dots>, K - 1\<close> for
  some \<open>K\<close> (none is skipped); \<open>K\<close> is the greatest lane in use plus one. When the list
  is the items of a category of the timeline (whose category identifiers are unique),
  the lane count that \<open>categoryMaxStacks\<close> records for that category is \<open>K\<close>, and 1 when
  the category has no item.
\<close>

theorem assignStackPositions_lanes:
  assumes "distinct (map item_id categoryItems)"
  shows "(\<forall>x \<in> set categoryItems.
            \<exists>k. map_of (assignStackPositions P categoryItems) (item_id x) = Some k) \<and>
         distinct (map fst (assignStackPositions P categoryItems)) \<and>
         fst ` set (assignStackPositions P categoryItems) = item_id ` set categoryItems \<and>
         (\<exists>K. snd ` set (assignStackPositions P categoryItems) = {..<K} \<and>
              maxStackOf (assignStackPositions P categoryItems)
                = (if categoryItems = [] then 1 else K) \<and>
              (categoryItems \<noteq> [] \<longrightarrow>
                 K = Max (snd ` set (assignStackPositions P categoryItems)) + 1) \<and>
              (distinct (map cat_id (categories P)) \<and> cat \<in> set (categories P) \<and>
               categoryItemsOf P cat = categoryItems \<longrightarrow>
                 map_of (categoryMaxStacks P) (cat_id cat)
                   = Some (if categoryItems = [] then 1 else K)))"
proof -
  from assignStackPositions_lane_set [OF assms, of P] obtain K where
    a: "\<forall>x \<in> set categoryItems.
          \<exists>k. map_of (assignStackPositions P categoryItems) (item_id x) = Some k"
    and b: "distinct (map fst (assignStackPositions P categoryItems))"
    and c: "fst ` set (assignStackPositions P categoryItems) = item_id ` set categoryItems"
    and k1: "snd ` set (assignStackPositions P categoryItems) = {..<K}"
    and k2: "maxStackOf (assignStackPositions P categoryItems)
               = (if categoryItems = [] then 1 else K)"
    and k3: "categoryItems \<noteq> [] \<longrightarrow>
               K = Max (snd ` set (assignStackPositions P categoryItems)) + 1"
    by blast
  have r: "distinct (map cat_id (categories P)) \<and> cat \<in> set (categories P) \<and>
           categoryItemsOf P cat = categoryItems \<longrightarrow>
             map_of (categoryMaxStacks P) (cat_id cat)
               = Some (if categoryItems = [] then 1 else K)"
    using categoryMaxStacks_lookup [of P cat] k2 by auto
  show ?thesis
    using a b c k1 k2 k3 r by blast
qed

lemma sampleCategorised_items:
  "categoryItemsOf sampleCategorised catA = [itemA, itemB, itemC, itemD]"
  "categoryItemsOf sampleCategorised catB = []"
  by code_simp+

lemma sampleCategorised_positions:
  "assignStackPositions sampleCategorised [itemA, itemB, itemC, itemD]
     = [(1, 0), (2, 1), (4, 2), (3, 0)]"
  by code_simp

theorem assignStackPositions_lanes_witness:
  "snd ` set (assignStackPositions sampleCategorised (categoryItemsOf sampleCategorised catA)) = {..<3} \<and>
   map_of (categoryMaxStacks sampleCategorised) (cat_id catA) = Some 3 \<and>
   map_of (categoryMaxStacks sampleCategorised) (cat_id catB) = Some 1"
proof -
  have d: "distinct (map item_id [itemA, itemB, itemC, itemD])" "distinct (map item_id ([] :: TimelineItem list))"
    by (simp_all add: itemA_def itemB_def itemC_def itemD_def sampleItem_def)
  have c: "distinct (map cat_id (categories sampleCategorised))"
    "catA \<in> set (categories sampleCategorised)" "catB \<in> set (categories sampleCategorised)"
    by (simp_all add: sampleCategorised_def catA_def catB_def)
  have mx: "Max (snd ` set (assignStackPositions sampleCategorised [itemA, itemB, itemC, itemD])) + 1 = 3"
    by (simp add: sampleCategorised_positions)
  let ?L = "[itemA, itemB, itemC, itemD]"
  from assignStackPositions_lanes [OF d(1), of sampleCategorised catA] obtain K where
    k1: "snd ` set (assignStackPositions sampleCategorised ?L) = {..<K}"
    and k3: "?L \<noteq> [] \<longrightarrow> K = Max (snd ` set (assignStackPositions sampleCategorised ?L)) + 1"
    and k4: "distinct (map cat_id (categories sampleCategorised)) \<and>
             catA \<in> set (categories sampleCategorised) \<and>
             categoryItemsOf sampleCategorised catA = ?L \<longrightarrow>
               map_of (categoryMaxStacks sampleCategorised) (cat_id catA)
                 = Some (if ?L = [] then 1 else K)"
    by blast
  have K: "K = 3"
    using k3 mx by simp
  have a: "map_of (categoryMaxStacks sampleCategorised) (cat_id catA) = Some 3"
    using k4 c(1,2) sampleCategorised_items(1) K by simp
  from assignStackPositions_lanes [OF d(2), of sampleCategorised catB] obtain K' where
    "distinct (map cat_id (categories sampleCategorised)) \<and>
     catB \<in> set (categories sampleCategorised) \<and>
     categoryItemsOf sampleCategorised catB = [] \<longrightarrow>
       map_of (categoryMaxStacks sampleCategorised) (cat_id catB)
         = Some (if ([] :: TimelineItem list) = [] then 1 else K')"
    by blast
  then have b: "map_of (categoryMaxStacks sampleCategorised) (cat_id catB) = Some 1"
    using c(1,3) sampleCategorised_items(2) by simp
  show ?thesis
    using k1 K a b by (simp add: sampleCategorised_items)
qed

section \<open>Properties of the overlap predicate\<close>

lemma calculatePointItemWidth_pos:
  assumes "0 < zoom P"
  shows "0 < calculatePointItemWidth P t"
proof -
  have "0 < 50 * zoom P"
    using assms by simp
  then show ?thesis
    by (simp add: calculatePointItemWidth_def Let_def less_max_iff_disj)
qed

lemma pointWidth_lookup:
  assumes "distinct (map item_id (items P))" and "a \<in> set (items P)"
    and "d_end_age (getItemAges P a) = None" and "0 < zoom P"
  shows "js_or (map_of (itemWidths P) (item_id a)) 60 = Fin (calculatePointItemWidth P (title a))"
proof -
  have "map_of (itemWidths P) (item_id a) = Some (Fin (calculatePointItemWidth P (title a)))"
    using assms(3) by (simp add: itemWidths_distinct [OF assms(1,2)] itemWidth_def Let_def)
  then show ?thesis
    using calculatePointItemWidth_pos [OF assms(4), of "title a"] by (simp add: js_or_def)
qed

text \<open>
  C5. For two items of a timeline with unique identifiers and a positive zoom. When
  both are milestones they overlap exactly when their rendered boxes intersect: each
  box is centred on the item's x position (its start age mapped linearly into the
  displayed window, 0 when the window is empty) and is as wide as the title needs at
  the base font size, \<open>length * (11 * zoom * 0.6) + 4 * zoom\<close>, and at least \<open>50 * zoom\<close>.
  Otherwise they overlap exactly when each one's end (its start, for a milestone) is
  strictly greater than the other's start, so an item that ends exactly where the other
  starts does not overlap it.
\<close>

theorem itemsOverlap_characterisation:
  assumes "distinct (map item_id (items P))"
    and "a \<in> set (items P)" and "b \<in> set (items P)"
    and "0 < zoom P"
    and "agesA = deriveItemAges (newDate P) a (dateOfBirth P) (ageRange P)"
    and "agesB = deriveItemAges (newDate P) b (dateOfBirth P) (ageRange P)"
    and "xA = (if AGE_RANGE P = 0 then 0
               else (d_start_age agesA - START_AGE P) / AGE_RANGE P * width P)"
    and "xB = (if AGE_RANGE P = 0 then 0
               else (d_start_age agesB - START_AGE P) / AGE_RANGE P * width P)"
    and "widthA = max (50 * zoom P)
                      (real (length (title a)) * (11 * zoom P * (6 / 10)) + 4 * zoom P)"
    and "widthB = max (50 * zoom P)
                      (real (length (title b)) * (11 * zoom P * (6 / 10)) + 4 * zoom P)"
  shows "itemsOverlap P a b =
           (if d_end_age agesA = None \<and> d_end_age agesB = None then
              xA + widthA / 2 > xB - widthB / 2 \<and> xB + widthB / 2 > xA - widthA / 2
            else
              (case d_end_age agesA of None \<Rightarrow> d_start_age agesA | Some e \<Rightarrow> e) > d_start_age agesB \<and>
              (case d_end_age agesB of None \<Rightarrow> d_start_age agesB | Some e \<Rightarrow> e) > d_start_age agesA) \<and>
         (d_end_age agesA = Some (d_start_age agesB) \<longrightarrow> \<not> itemsOverlap P a b)"
proof -
  have ga: "getItemAges P a = agesA" and gb: "getItemAges P b = agesB"
    using getItemAges_distinct [OF assms(1)] assms(2,3,5,6) by simp_all
  have xa: "ageToX P (d_start_age agesA) = xA" and xb: "ageToX P (d_start_age agesB) = xB"
    using assms(7,8) by (simp_all add: ageToX_def Let_def)
  have wa: "calculatePointItemWidth P (title a) = widthA"
    and wb: "calculatePointItemWidth P (title b) = widthB"
    using assms(9,10) by (simp_all add: calculatePointItemWidth_def Let_def)
  show ?thesis
  proof (cases "d_end_age agesA = None \<and> d_end_age agesB = None")
    case True
    have la: "js_or (map_of (itemWidths P) (item_id a)) 60 = Fin widthA"
      using pointWidth_lookup [OF assms(1,2) _ assms(4)] True ga wa by simp
    have lb: "js_or (map_of (itemWidths P) (item_id b)) 60 = Fin widthB"
      using pointWidth_lookup [OF assms(1,3) _ assms(4)] True gb wb by simp
    show ?thesis
      using True by (simp add: itemsOverlap_def ga gb xa xb la lb js_sub_def Let_def)
  next
    case False
    then show ?thesis
      by (auto simp: itemsOverlap_def ga gb Let_def)
  qed
qed

lemma sampleWide_derived:
  "deriveItemAges (newDate sampleWide) itemA (dateOfBirth sampleWide) (ageRange sampleWide)
     = \<lparr>d_start_age = 20, d_end_age = Some 25\<rparr>"
  "deriveItemAges (newDate sampleWide) itemB (dateOfBirth sampleWide) (ageRange sampleWide)
     = \<lparr>d_start_age = 22, d_end_age = None\<rparr>"
  "deriveItemAges (newDate sampleWide) itemC (dateOfBirth sampleWide) (ageRange sampleWide)
     = \<lparr>d_start_age = 25, d_end_age = Some 30\<rparr>"
  "deriveItemAges (newDate sampleWide) itemD (dateOfBirth sampleWide) (ageRange sampleWide)
     = \<lparr>d_start_age = 23, d_end_age = None\<rparr>"
  "deriveItemAges (newDate sampleWide) itemE (dateOfBirth sampleWide) (ageRange sampleWide)
     = \<lparr>d_start_age = 27, d_end_age = None\<rparr>"
  "deriveItemAges (newDate sampleWide) itemF (dateOfBirth sampleWide) (ageRange sampleWide)
     = \<lparr>d_start_age = 40, d_end_age = None\<rparr>"
  by code_simp+

lemma sampleWide_window:
  "AGE_RANGE sampleWide = 80" "START_AGE sampleWide = 0"
  "width sampleWide = 1200" "zoom sampleWide = 1"
  by code_simp+

lemma sampleWide_titles:
  "length (title itemB) = 5" "length (title itemD) = 5"
  "length (title itemE) = 15" "length (title itemF) = 5"
  by (simp_all add: itemB_def itemD_def itemE_def itemF_def)

lemma sampleWide_members:
  "itemA \<in> set (items sampleWide)" "itemB \<in> set (items sampleWide)"
  "itemC \<in> set (items sampleWide)" "itemD \<in> set (items sampleWide)"
  "itemE \<in> set (items sampleWide)" "itemF \<in> set (items sampleWide)"
  "distinct (map item_id (items sampleWide))" "0 < zoom sampleWide"
  by (simp_all add: sampleWide_def sampleTimeline_def itemA_def itemB_def itemC_def itemD_def
      itemE_def itemF_def sampleItem_def)

theorem itemsOverlap_characterisation_witness:
  "itemsOverlap sampleWide itemB itemD \<and>
   itemsOverlap sampleWide itemD itemE \<and>
   \<not> itemsOverlap sampleWide itemB itemF \<and>
   itemsOverlap sampleWide itemA itemB \<and>
   \<not> itemsOverlap sampleWide itemA itemC"
proof -
  note m = sampleWide_members
  note ev = sampleWide_derived sampleWide_window sampleWide_titles
  have bd: "itemsOverlap sampleWide itemB itemD"
    using itemsOverlap_characterisation [OF m(7) m(2) m(4) m(8) refl refl refl refl refl refl]
    by (simp add: ev)
  have de: "itemsOverlap sampleWide itemD itemE"
    using itemsOverlap_characterisation [OF m(7) m(4) m(5) m(8) refl refl refl refl refl refl]
    by (simp add: ev)
  have bf: "\<not> itemsOverlap sampleWide itemB itemF"
    using itemsOverlap_characterisation [OF m(7) m(2) m(6) m(8) refl refl refl refl refl refl]
    by (simp add: ev)
  have ab: "itemsOverlap sampleWide itemA itemB"
    using itemsOverlap_characterisation [OF m(7) m(1) m(2) m(8) refl refl refl refl refl refl]
    by (simp add: ev)
  have ac: "\<not> itemsOverlap sampleWide itemA itemC"
    using itemsOverlap_characterisation [OF m(7) m(1) m(3) m(8) refl refl refl refl refl refl]
    by (simp add: ev)
  show ?thesis
    using bd de bf ab ac by simp
qed

section \<open>A displayed span of zero\<close>

text \<open>The guard of \<open>ageToX\<close>: with a span of 0 every age maps to 0.\<close>

lemma ageToX_zero_span: "AGE_RANGE P = 0 \<Longrightarrow> ageToX P age = 0"
  by (simp add: ageToX_def)

text \<open>
  The width of a bar has no such guard: with a span of 0 and a positive timeline width
  every bar gets the width \<open>Infinity\<close>.
\<close>

lemma zero_span_bar_width:
  assumes "AGE_RANGE P = 0" and "0 < width P"
    and "item \<in> set (items P)" and "d_end_age (getItemAges P item) = Some e"
  shows "map_of (itemWidths P) (item_id item) = Some PosInf"
  using itemWidths_bar [OF assms(3,4)] assms(1,2)
  by (simp add: ageToX_zero_span js_div_def)

lemma sampleZero_widths:
  "itemWidths sampleZero = [(1, PosInf), (2, Fin 50), (3, PosInf), (4, Fin 50)]"
  by code_simp

text \<open>
  C8, at an age range of 0 with \<open>autoScale\<close> off: the displayed span is 0 and \<open>ageToX\<close>
  returns 0, but the width of one year is \<open>1200 / 0\<close>, and the bar from 20 to 25 is stored
  with the width \<open>Infinity\<close>; the milestones keep their width of 50.
\<close>

theorem zero_span_divides_by_zero:
  "AGE_RANGE sampleZero = 0 \<and> ageToX sampleZero 20 = 0 \<and>
   oneYearWidth sampleZero = PosInf \<and>
   map_of (itemWidths sampleZero) (item_id itemA) = Some PosInf \<and>
   map_of (itemWidths sampleZero) (item_id itemB) = Some (Fin 50)"
proof -
  have r: "AGE_RANGE sampleZero = 0"
    by (simp add: AGE_RANGE_def calculateDisplayRange_def sampleZero_def sampleTimeline_def)
  have w: "width sampleZero = 1200"
    by (simp add: sampleZero_def sampleTimeline_def)
  have ids: "item_id itemA = 1" "item_id itemB = 2"
    by (simp_all add: itemA_def itemB_def sampleItem_def)
  show ?thesis
    by (simp add: r ageToX_zero_span oneYearWidth_def js_div_def w sampleZero_widths ids)
qed

section \<open>Properties of the category manager\<close>

lemma sampleManager_dense:
  "dense (cm_categories sampleManager) Top \<and> dense (cm_categories sampleManager) Bottom"
  by code_simp

lemma move_to_other_section:
  "cm_categories (handleSave (changeSection Bottom (handleEdit catA sampleManager)))
     = [catA\<lparr>cat_section := Bottom\<rparr>, catB]"
  by code_simp

lemma edit_to_end_of_section:
  "cm_categories (handleSave (changeDisplayOrder 2 (handleEdit catA sampleManager)))
     = [catA\<lparr>display_order := 2\<rparr>, catB]"
  by code_simp

text \<open>The paths that do renumber: deleting, and adding in the middle.\<close>

lemma delete_renumbers:
  "cm_categories (handleDelete True 1 sampleManager) = [catB\<lparr>display_order := 0\<rparr>]"
  by code_simp

lemma add_in_front_renumbers:
  "cm_categories
     (handleSave
        (changeDisplayOrder 0
           (setFormData ((formData (handleCreate sampleManager))\<lparr>fd_label := ''Jobs'', fd_name := ''jobs''\<rparr>)
              (handleCreate sampleManager))))
     = [catA\<lparr>display_order := 1\<rparr>, catB\<lparr>display_order := 2\<rparr>,
        \<lparr>cat_id = 3, cat_name = ''jobs'', cat_label = ''Jobs'', cat_section = Top,
         display_order = 0, cat_color = Blue\<rparr>]"
  by code_simp

text \<open>
  C6 does not hold of the code. From two top categories with orders 0 and 1, editing
  the first and moving it to the bottom section leaves the top section with the single
  order 1: \<open>handleSave\<close> renumbers the section of the form only, never the section the
  category has left. Editing the first and giving it the order 2, which the form
  allows, leaves the orders 2 and 1: nothing is renumbered when the order equals the
  section's count and no two orders coincide.
\<close>

theorem category_density_broken_by_edit:
  "dense (cm_categories sampleManager) Top \<and> dense (cm_categories sampleManager) Bottom \<and>
   \<not> dense (cm_categories (handleSave (changeSection Bottom (handleEdit catA sampleManager)))) Top \<and>
   \<not> dense (cm_categories (handleSave (changeDisplayOrder 2 (handleEdit catA sampleManager)))) Top"
  by code_simp

end
